theory Spec2Isabelle
  imports Complex_Main "HOL-Library.Word" "HOL-Library.Log_Nat"
begin

unbundle bit_operations_syntax

section \<open>Python values used by bot.py\<close>

text \<open>
  A \<open>string\<close> (a \<open>char list\<close>) is a Python \<open>str\<close> whose code points are all below 256:
  \<open>str.lower\<close> and \<open>str.strip\<close> are modelled on these, and among them the decimal digits
  that \<open>\d\<close> and \<open>float\<close> accept are exactly \<open>0\<close> to \<open>9\<close>. A Python \<open>str\<close> with arbitrary
  code points is a \<open>nat list\<close>; \<open>parse_price\<close> is modelled on both, the functions on code
  points carrying the suffix \<open>_u\<close>.
\<close>

subsection \<open>Floats\<close>

text \<open>
  A Python \<open>float\<close> is an IEEE-754 binary64 value. \<open>Fin q\<close> is the finite double whose
  exact value is the rational \<open>q\<close>; \<open>PInf\<close>, \<open>NInf\<close> and \<open>NaN\<close> are the special values.
  The sign of zero is not represented.
\<close>

datatype pyfloat = Fin rat | PInf | NInf | NaN

text \<open>Exceptions raised by the code under study.\<close>

datatype error = RuntimeError | ZeroDivisionError | SendError

definition pow2 :: "int \<Rightarrow> rat" where
  "pow2 k = (if 0 \<le> k then 2 ^ nat k else 1 / 2 ^ nat (- k))"

text \<open>\<open>ilog2 q\<close> is the integer \<open>e\<close> with \<open>2^e \<le> q < 2^(e+1)\<close>, for \<open>q > 0\<close>.\<close>

definition ilog2 :: "rat \<Rightarrow> int" where
  "ilog2 q =
     (let (a, b) = quotient_of q;
          d = int (floorlog 2 (nat a)) - int (floorlog 2 (nat b))
      in if pow2 d \<le> q then d else d - 1)"

definition round_half_even :: "rat \<Rightarrow> int" where
  "round_half_even x =
     (let f = \<lfloor>x\<rfloor>; d = x - of_int f
      in if d < 1 / 2 then f
         else if 1 / 2 < d then f + 1
         else if even f then f else f + 1)"

text \<open>
  Round-to-nearest, ties-to-even, of a rational to binary64: 53 significant bits,
  least exponent \<open>-1022\<close> (below it the spacing stays \<open>2^-1074\<close>), overflow to infinity
  from \<open>2^1024\<close> on.
\<close>

definition round_binary64 :: "rat \<Rightarrow> pyfloat" where
  "round_binary64 q =
     (if q = 0 then Fin 0
      else let a = \<bar>q\<bar>;
               e = max (ilog2 a) (- 1022);
               ulp = pow2 (e - 52);
               r = of_int (round_half_even (a / ulp)) * ulp
           in if pow2 1024 \<le> r then (if 0 < q then PInf else NInf)
              else Fin (if 0 < q then r else - r))"

text \<open>Comparisons: every comparison with \<open>NaN\<close> is false.\<close>

fun flt :: "pyfloat \<Rightarrow> pyfloat \<Rightarrow> bool" where
  "flt NaN _ = False"
| "flt _ NaN = False"
| "flt (Fin a) (Fin b) = (a < b)"
| "flt (Fin a) PInf = True"
| "flt (Fin a) NInf = False"
| "flt PInf _ = False"
| "flt NInf NInf = False"
| "flt NInf _ = True"

fun fle :: "pyfloat \<Rightarrow> pyfloat \<Rightarrow> bool" where
  "fle NaN _ = False"
| "fle _ NaN = False"
| "fle (Fin a) (Fin b) = (a \<le> b)"
| "fle (Fin a) PInf = True"
| "fle (Fin a) NInf = False"
| "fle PInf PInf = True"
| "fle PInf _ = False"
| "fle NInf _ = True"

definition fgt :: "pyfloat \<Rightarrow> pyfloat \<Rightarrow> bool" where
  "fgt a b = flt b a"

definition fge :: "pyfloat \<Rightarrow> pyfloat \<Rightarrow> bool" where
  "fge a b = fle b a"

text \<open>Arithmetic: the exact result, rounded; the special values follow IEEE-754.\<close>

fun fsub :: "pyfloat \<Rightarrow> pyfloat \<Rightarrow> pyfloat" where
  "fsub NaN _ = NaN"
| "fsub _ NaN = NaN"
| "fsub (Fin a) (Fin b) = round_binary64 (a - b)"
| "fsub (Fin a) PInf = NInf"
| "fsub (Fin a) NInf = PInf"
| "fsub PInf PInf = NaN"
| "fsub PInf _ = PInf"
| "fsub NInf NInf = NaN"
| "fsub NInf _ = NInf"

fun fmul :: "pyfloat \<Rightarrow> pyfloat \<Rightarrow> pyfloat" where
  "fmul NaN _ = NaN"
| "fmul _ NaN = NaN"
| "fmul (Fin a) (Fin b) = round_binary64 (a * b)"
| "fmul (Fin a) PInf = (if a = 0 then NaN else if 0 < a then PInf else NInf)"
| "fmul (Fin a) NInf = (if a = 0 then NaN else if 0 < a then NInf else PInf)"
| "fmul PInf (Fin b) = (if b = 0 then NaN else if 0 < b then PInf else NInf)"
| "fmul NInf (Fin b) = (if b = 0 then NaN else if 0 < b then NInf else PInf)"
| "fmul PInf PInf = PInf"
| "fmul PInf NInf = NInf"
| "fmul NInf PInf = NInf"
| "fmul NInf NInf = PInf"

text \<open>Python's \<open>/\<close> on floats raises \<open>ZeroDivisionError\<close> for a zero divisor.\<close>

fun py_truediv :: "pyfloat \<Rightarrow> pyfloat \<Rightarrow> error + pyfloat" where
  "py_truediv a (Fin b) =
     (if b = 0 then Inl ZeroDivisionError
      else case a of
             Fin x \<Rightarrow> Inr (round_binary64 (x / b))
           | PInf \<Rightarrow> Inr (if 0 < b then PInf else NInf)
           | NInf \<Rightarrow> Inr (if 0 < b then NInf else PInf)
           | NaN \<Rightarrow> Inr NaN)"
| "py_truediv a NaN = Inr NaN"
| "py_truediv a PInf =
     (case a of Fin x \<Rightarrow> Inr (Fin 0) | _ \<Rightarrow> Inr NaN)"
| "py_truediv a NInf =
     (case a of Fin x \<Rightarrow> Inr (Fin 0) | _ \<Rightarrow> Inr NaN)"

subsection \<open>\<open>float(str)\<close> on cleaned price text\<close>

definition is_digit :: "char \<Rightarrow> bool" where
  "is_digit c = (c \<in> set ''0123456789'')"

definition digit_val :: "char \<Rightarrow> nat" where
  "digit_val c = of_char c - 48"

fun digits_val :: "nat \<Rightarrow> string \<Rightarrow> nat" where
  "digits_val acc [] = acc"
| "digits_val acc (c # cs) = digits_val (10 * acc + digit_val c) cs"

text \<open>
  \<open>float(s)\<close> for a string \<open>s\<close> of digits, commas and periods, the only strings
  \<open>parse_price\<close> hands to it: it succeeds exactly on \<open>digits\<close>, \<open>digits.\<close>, \<open>digits.digits\<close>
  and \<open>.digits\<close>, with the correctly rounded value, an overflow giving \<open>inf\<close>; anything else
  raises \<open>ValueError\<close>, here \<open>None\<close>. \<open>decimal_value\<close> is the exact number such a text denotes,
  before rounding.
\<close>

definition decimal_value :: "string \<Rightarrow> rat option" where
  "decimal_value s =
     (let ip = takeWhile is_digit s; rest = dropWhile is_digit s
      in case rest of
           [] \<Rightarrow> (if ip = [] then None else Some (of_nat (digits_val 0 ip)))
         | c # fp \<Rightarrow>
             (if c = CHR ''.'' \<and> list_all is_digit fp \<and> (ip \<noteq> [] \<or> fp \<noteq> [])
              then Some (of_nat (digits_val 0 (ip @ fp)) / 10 ^ length fp)
              else None))"

definition py_float :: "string \<Rightarrow> pyfloat option" where
  "py_float s =
     (let ip = takeWhile is_digit s; rest = dropWhile is_digit s
      in case rest of
           [] \<Rightarrow> (if ip = [] then None else Some (round_binary64 (of_nat (digits_val 0 ip))))
         | c # fp \<Rightarrow>
             (if c = CHR ''.'' \<and> list_all is_digit fp \<and> (ip \<noteq> [] \<or> fp \<noteq> [])
              then Some (round_binary64 (of_nat (digits_val 0 (ip @ fp)) / 10 ^ length fp))
              else None))"

section \<open>\<open>parse_price\<close>\<close>

definition keep_char :: "char \<Rightarrow> bool" where
  "keep_char c = (is_digit c \<or> c = CHR '','' \<or> c = CHR ''.'')"

text \<open>\<open>re.sub(r"[^\d,\.]", "", value)\<close>\<close>

definition clean :: "string \<Rightarrow> string" where
  "clean v = filter keep_char v"

text \<open>\<open>str.rfind\<close>: the index of the last occurrence, \<open>-1\<close> when there is none.\<close>

fun rfind_from :: "'a \<Rightarrow> 'a list \<Rightarrow> int \<Rightarrow> int \<Rightarrow> int" where
  "rfind_from c [] i found = found"
| "rfind_from c (x # xs) i found = rfind_from c xs (i + 1) (if x = c then i else found)"

definition rfind :: "'a list \<Rightarrow> 'a \<Rightarrow> int" where
  "rfind s c = rfind_from c s 0 (- 1)"

text \<open>\<open>s.replace(c, "")\<close> and \<open>s.replace(",", ".")\<close> for one-character patterns.\<close>

definition remove_char :: "'a \<Rightarrow> 'a list \<Rightarrow> 'a list" where
  "remove_char c s = filter (\<lambda>x. x \<noteq> c) s"

definition comma_to_period :: "string \<Rightarrow> string" where
  "comma_to_period s = map (\<lambda>x. if x = CHR '','' then CHR ''.'' else x) s"

text \<open>The separator rules of \<open>parse_price\<close>, applied to the non-empty cleaned text.\<close>

definition normalise :: "string \<Rightarrow> string" where
  "normalise cleaned =
     (if CHR '','' \<in> set cleaned \<and> CHR ''.'' \<in> set cleaned then
        (if rfind cleaned (CHR '','') > rfind cleaned (CHR ''.'')
         then comma_to_period (remove_char (CHR ''.'') cleaned)
         else remove_char (CHR '','') cleaned)
      else if count_list cleaned (CHR '','') = 1 then comma_to_period cleaned
      else if count_list cleaned (CHR ''.'') > 1 then remove_char (CHR ''.'') cleaned
      else cleaned)"

definition parse_price :: "string \<Rightarrow> pyfloat option" where
  "parse_price v =
     (let cleaned = clean v
      in if cleaned = [] then None else py_float (normalise cleaned))"

text \<open>
  The separator rules in the words of the specification (section 4.1): with both a comma
  and a period present, the separator occurring later is the decimal point and the other
  kind is removed; exactly one comma and no period: the comma is the decimal point; more
  than one period and no comma: the periods are removed; otherwise the text is unchanged.
\<close>

definition separators :: "string \<Rightarrow> string" where
  "separators c = filter (\<lambda>x. x = CHR '','' \<or> x = CHR ''.'') c"

definition spec_normalise :: "string \<Rightarrow> string" where
  "spec_normalise c =
     (if CHR '','' \<in> set c \<and> CHR ''.'' \<in> set c then
        (if last (separators c) = CHR '','' then comma_to_period (remove_char (CHR ''.'') c)
         else remove_char (CHR '','') c)
      else if count_list c (CHR '','') = 1 \<and> CHR ''.'' \<notin> set c then comma_to_period c
      else if CHR '','' \<notin> set c \<and> count_list c (CHR ''.'') > 1 then remove_char (CHR ''.'') c
      else c)"

subsection \<open>\<open>parse_price\<close> on arbitrary text\<close>

text \<open>
  The class \<open>\d\<close> of \<open>re\<close> on a \<open>str\<close> pattern and \<open>float\<close> accept every Unicode decimal digit
  (category \<open>Nd\<close>). In the Unicode data of Python 3.11 (version 14.0.0) these are 66 runs
  of ten code points, each from a digit zero to a digit nine; \<open>decimal_zeros\<close> lists the
  zeros.
\<close>

definition decimal_zeros :: "nat list" where
  "decimal_zeros =
     [0x00030, 0x00660, 0x006F0, 0x007C0, 0x00966, 0x009E6, 0x00A66, 0x00AE6,
      0x00B66, 0x00BE6, 0x00C66, 0x00CE6, 0x00D66, 0x00DE6, 0x00E50, 0x00ED0,
      0x00F20, 0x01040, 0x01090, 0x017E0, 0x01810, 0x01946, 0x019D0, 0x01A80,
      0x01A90, 0x01B50, 0x01BB0, 0x01C40, 0x01C50, 0x0A620, 0x0A8D0, 0x0A900,
      0x0A9D0, 0x0A9F0, 0x0AA50, 0x0ABF0, 0x0FF10, 0x104A0, 0x10D30, 0x11066,
      0x110F0, 0x11136, 0x111D0, 0x112F0, 0x11450, 0x114D0, 0x11650, 0x116C0,
      0x11730, 0x118E0, 0x11950, 0x11C50, 0x11D50, 0x11DA0, 0x16A60, 0x16AC0,
      0x16B50, 0x1D7CE, 0x1D7D8, 0x1D7E2, 0x1D7EC, 0x1D7F6, 0x1E140, 0x1E2F0,
      0x1E950, 0x1FBF0]"

definition is_decimal :: "nat \<Rightarrow> bool" where
  "is_decimal c = list_ex (\<lambda>z. z \<le> c \<and> c < z + 10) decimal_zeros"

definition decimal_of :: "nat \<Rightarrow> nat option" where
  "decimal_of c = map_option (\<lambda>z. c - z) (find (\<lambda>z. z \<le> c \<and> c < z + 10) decimal_zeros)"

text \<open>The comma is code point 44, the period 46.\<close>

definition keep_u :: "nat \<Rightarrow> bool" where
  "keep_u c = (is_decimal c \<or> c = 44 \<or> c = 46)"

definition clean_u :: "nat list \<Rightarrow> nat list" where
  "clean_u v = filter keep_u v"

definition comma_to_period_u :: "nat list \<Rightarrow> nat list" where
  "comma_to_period_u s = map (\<lambda>x. if x = 44 then 46 else x) s"

definition normalise_u :: "nat list \<Rightarrow> nat list" where
  "normalise_u cleaned =
     (if 44 \<in> set cleaned \<and> 46 \<in> set cleaned then
        (if rfind cleaned 44 > rfind cleaned 46
         then comma_to_period_u (remove_char 46 cleaned)
         else remove_char 44 cleaned)
      else if count_list cleaned 44 = 1 then comma_to_period_u cleaned
      else if count_list cleaned 46 > 1 then remove_char 46 cleaned
      else cleaned)"

text \<open>
  \<open>float\<close> on a \<open>str\<close> first writes every decimal digit as its ASCII digit and every other
  code point above 127 as a question mark, then parses the ASCII text.
\<close>

definition ascii_of :: "nat \<Rightarrow> char" where
  "ascii_of c =
     (case decimal_of c of
        Some d \<Rightarrow> char_of (48 + d)
      | None \<Rightarrow> if c < 128 then char_of c else CHR ''?'')"

definition parse_price_u :: "nat list \<Rightarrow> pyfloat option" where
  "parse_price_u v =
     (let cleaned = clean_u v
      in if cleaned = [] then None else py_float (map ascii_of (normalise_u cleaned)))"

text \<open>The code points of a string.\<close>

definition codes :: "string \<Rightarrow> nat list" where
  "codes s = map of_char s"

section \<open>\<open>stable_id\<close>\<close>

text \<open>
  A character is a code point below 256. \<open>str.strip()\<close> removes leading and trailing
  whitespace (the code points that \<open>str.isspace\<close> accepts), and \<open>str.lower()\<close> maps the
  capital letters \<open>A\<close> to \<open>Z\<close> and \<open>0xC0\<close> to \<open>0xDE\<close> (without the multiplication sign
  \<open>0xD7\<close>) to the code point 32 above.
\<close>

definition is_space :: "char \<Rightarrow> bool" where
  "is_space c = (of_char c \<in> {9, 10, 11, 12, 13, 28, 29, 30, 31, 32, 133, 160 :: nat})"

definition strip :: "string \<Rightarrow> string" where
  "strip s = rev (dropWhile is_space (rev (dropWhile is_space s)))"

definition lower_char :: "char \<Rightarrow> char" where
  "lower_char c =
     (let n = (of_char c :: nat)
      in if (65 \<le> n \<and> n \<le> 90) \<or> (192 \<le> n \<and> n \<le> 222 \<and> n \<noteq> 215) then char_of (n + 32)
         else c)"

definition lower :: "string \<Rightarrow> string" where
  "lower s = map lower_char s"

text \<open>\<open>url.split('?')[0]\<close>: the text before the first question mark.\<close>

definition before_query :: "string \<Rightarrow> string" where
  "before_query url = takeWhile (\<lambda>c. c \<noteq> CHR ''?'') url"

definition canonical :: "string \<Rightarrow> string \<Rightarrow> string \<Rightarrow> string" where
  "canonical site title url = site @ ''|'' @ lower (strip title) @ ''|'' @ before_query url"

text \<open>
  \<open>hashlib.sha256(...).hexdigest()\<close> is a library function, not code of this repository:
  \<open>stable_id\<close> takes it as the parameter \<open>digest\<close>, and what is proved of \<open>stable_id\<close> holds
  for every digest.
\<close>

definition stable_id :: "(string \<Rightarrow> string) \<Rightarrow> string \<Rightarrow> string \<Rightarrow> string \<Rightarrow> string" where
  "stable_id digest site title url = take 24 (digest (canonical site title url))"

section \<open>\<open>extract_products\<close>\<close>

record product =
  site :: string
  product_id :: string
  title :: string
  price_pen :: pyfloat
  url :: string

text \<open>
  The parsed page. \<open>BeautifulSoup\<close> is a library: a document is what \<open>soup.select\<close>
  returns for each selector, a block (a tag) is its object identity \<open>id(block)\<close> and what
  \<open>block.select_one\<close> returns for each selector, and a node is its \<open>get_text(" ", strip=True)\<close>
  and its \<open>href\<close> attribute.
\<close>

record node =
  node_text :: string
  node_href :: "string option"

record block =
  block_id :: nat
  select_one :: "string \<Rightarrow> node option"

type_synonym document = "string \<Rightarrow> block list"

definition dq :: string where
  "dq = [CHR 0x22]"

definition SITE_PRODUCT_SELECTORS :: "string \<Rightarrow> string list option" where
  "SITE_PRODUCT_SELECTORS s =
     (if s = ''mercadolibre'' then Some [''li.ui-search-layout__item'', ''div.poly-card'', ''article'']
      else if s = ''falabella'' then Some [''div.pod'', ''article'', ''li'']
      else if s = ''hm'' then Some [''article.product-item'', ''li.product-item'', ''article'', ''li'']
      else if s = ''shopstar'' then Some [''div.grid-product'', ''li.grid__item'', ''article'', ''li'']
      else None)"

definition TITLE_SELECTORS :: "string list" where
  "TITLE_SELECTORS =
     [''[itemprop='' @ dq @ ''name'' @ dq @ '']'', ''h1'', ''h2'', ''h3'', ''.title'', ''.product-name'',
      ''.poly-component__title'', ''.pod-subTitle'', ''.product-item__title'']"

definition PRICE_SELECTORS :: "string list" where
  "PRICE_SELECTORS =
     [''[itemprop='' @ dq @ ''price'' @ dq @ '']'', ''[data-testid='' @ dq @ ''price-part'' @ dq @ '']'',
      ''.andes-money-amount__fraction'', ''.price'', ''.product-price'', ''.sales'', ''.money'',
      ''.price__current'', ''.pod-prices'']"

definition LINK_SELECTORS :: "string list" where
  "LINK_SELECTORS =
     [''a[href][title]'', ''a[href][aria-label]'', ''a[href*='' @ dq @ ''/p/'' @ dq @ '']'',
      ''a[href*='' @ dq @ ''/producto'' @ dq @ '']'', ''a[href]'']"

fun pick_first_text :: "block \<Rightarrow> string list \<Rightarrow> string" where
  "pick_first_text b [] = []"
| "pick_first_text b (selector # selectors) =
     (case select_one b selector of
        None \<Rightarrow> pick_first_text b selectors
      | Some n \<Rightarrow> if node_text n \<noteq> [] then node_text n else pick_first_text b selectors)"

fun pick_first_href :: "block \<Rightarrow> string list \<Rightarrow> string" where
  "pick_first_href b [] = []"
| "pick_first_href b (selector # selectors) =
     (case select_one b selector of
        None \<Rightarrow> pick_first_href b selectors
      | Some n \<Rightarrow>
          (case node_href n of
             None \<Rightarrow> pick_first_href b selectors
           | Some h \<Rightarrow> if h \<noteq> [] then strip h else pick_first_href b selectors))"

text \<open>
  The library functions and the configuration \<open>extract_products\<close> and \<open>monitor\<close> read:
  \<open>urljoin\<close>, the digest, and the environment variables \<open>DROP_THRESHOLD\<close>,
  \<open>MAX_ITEMS_PER_SITE\<close> and \<open>MAX_ALERTS_PER_RUN\<close>.
\<close>

record config =
  urljoin :: "string \<Rightarrow> string \<Rightarrow> string"
  digest :: "string \<Rightarrow> string"
  DROP_THRESHOLD :: pyfloat
  MAX_ITEMS_PER_SITE :: int
  MAX_ALERTS_PER_RUN :: int

text \<open>
  The inner loop over the blocks of one selector. It returns the visited identities, the
  products so far, and stops (the \<open>break\<close>) once the product count reaches the maximum.
\<close>

fun scan_blocks ::
  "config \<Rightarrow> string \<Rightarrow> string \<Rightarrow> block list \<Rightarrow> nat set \<Rightarrow> product list \<Rightarrow> nat set \<times> product list"
where
  "scan_blocks cfg s base [] seen_blocks products = (seen_blocks, products)"
| "scan_blocks cfg s base (b # bs) seen_blocks products =
     (if block_id b \<in> seen_blocks then scan_blocks cfg s base bs seen_blocks products
      else
        let seen' = insert (block_id b) seen_blocks;
            t = pick_first_text b TITLE_SELECTORS;
            raw_price = pick_first_text b PRICE_SELECTORS;
            href = pick_first_href b LINK_SELECTORS
        in if t = [] \<or> raw_price = [] \<or> href = [] then scan_blocks cfg s base bs seen' products
           else
             (case parse_price raw_price of
                None \<Rightarrow> scan_blocks cfg s base bs seen' products
              | Some price \<Rightarrow>
                  if fle price (Fin 0) then scan_blocks cfg s base bs seen' products
                  else
                    let u = urljoin cfg base href;
                        products' = products @
                          [\<lparr>site = s, product_id = stable_id (digest cfg) s t u, title = t,
                            price_pen = price, url = u\<rparr>]
                    in if MAX_ITEMS_PER_SITE cfg \<le> int (length products') then (seen', products')
                       else scan_blocks cfg s base bs seen' products'))"

text \<open>The outer loop over the selectors, with its own \<open>break\<close> after each selector.\<close>

fun scan_selectors ::
  "config \<Rightarrow> string \<Rightarrow> string \<Rightarrow> document \<Rightarrow> string list \<Rightarrow> nat set \<Rightarrow> product list \<Rightarrow> product list"
where
  "scan_selectors cfg s base soup [] seen_blocks products = products"
| "scan_selectors cfg s base soup (selector # selectors) seen_blocks products =
     (case scan_blocks cfg s base (soup selector) seen_blocks products of
        (seen', products') \<Rightarrow>
          if MAX_ITEMS_PER_SITE cfg \<le> int (length products') then products'
          else scan_selectors cfg s base soup selectors seen' products')"

text \<open>
  \<open>deduped.setdefault(product.product_id, product)\<close> on a dict, which keeps insertion
  order: an association list.
\<close>

definition setdefault :: "'k \<Rightarrow> 'v \<Rightarrow> ('k \<times> 'v) list \<Rightarrow> ('k \<times> 'v) list" where
  "setdefault k v d = (if k \<in> fst ` set d then d else d @ [(k, v)])"

definition dedupe :: "product list \<Rightarrow> product list" where
  "dedupe products = map snd (fold (\<lambda>p d. setdefault (product_id p) p d) products [])"

definition extract_products :: "config \<Rightarrow> string \<Rightarrow> document \<Rightarrow> string \<Rightarrow> product list" where
  "extract_products cfg s soup base_url =
     (let selectors = (case SITE_PRODUCT_SELECTORS s of
                         Some sels \<Rightarrow> sels
                       | None \<Rightarrow> [''article'', ''li'', ''div''])
      in dedupe (scan_selectors cfg s base_url soup selectors {} []))"

section \<open>\<open>monitor\<close>\<close>

subsection \<open>Formatting\<close>

definition digit_char :: "nat \<Rightarrow> char" where
  "digit_char n = ''0123456789'' ! n"

function to_digits :: "nat \<Rightarrow> string" where
  "to_digits n =
     (if n < 10 then [digit_char n] else to_digits (n div 10) @ [digit_char (n mod 10)])"
  by pat_completeness auto
termination
  by (relation "measure id") auto

declare to_digits.simps [simp del]

definition zfill :: "nat \<Rightarrow> string \<Rightarrow> string" where
  "zfill d s = replicate (d - length s) (CHR ''0'') @ s"

text \<open>
  The format specification \<open>:.df\<close> of an f-string: the exact value of the double, rounded
  half-even to \<open>d\<close> decimals.
\<close>

definition format_fixed :: "nat \<Rightarrow> pyfloat \<Rightarrow> string" where
  "format_fixed d x =
     (case x of
        NaN \<Rightarrow> ''nan''
      | PInf \<Rightarrow> ''inf''
      | NInf \<Rightarrow> ''-inf''
      | Fin q \<Rightarrow>
          let n = nat (round_half_even (\<bar>q\<bar> * 10 ^ d))
          in (if q < 0 then ''-'' else []) @ to_digits (n div 10 ^ d) @
             (if d = 0 then [] else ''.'' @ zfill d (to_digits (n mod 10 ^ d))))"

definition alert_key :: "string \<Rightarrow> pyfloat \<Rightarrow> pyfloat \<Rightarrow> string" where
  "alert_key pid old_price new_price =
     pid @ '':'' @ format_fixed 2 old_price @ ''->'' @ format_fixed 2 new_price"

definition newline :: string where
  "newline = [CHR 0x0A]"

text \<open>The fire emoji of the alert text, in UTF-8.\<close>

definition fire :: string where
  "fire = [CHR 0xF0, CHR 0x9F, CHR 0x94, CHR 0xA5]"

definition alert_text :: "pyfloat \<Rightarrow> string \<Rightarrow> product \<Rightarrow> pyfloat \<Rightarrow> string" where
  "alert_text drop_pct s p old_price =
     fire @ '' DESCUENTO FUERTE ('' @ format_fixed 1 drop_pct @ ''%)'' @ newline @
     ''Tienda: '' @ s @ newline @
     ''Producto: '' @ title p @ newline @
     ''Antes: S/ '' @ format_fixed 2 old_price @ newline @
     ''Ahora: S/ '' @ format_fixed 2 (price_pen p) @ newline @
     ''Link: '' @ url p"

subsection \<open>State\<close>

text \<open>
  A tracked entry as \<open>monitor\<close> writes it (all five keys present, so \<open>prev\<close> is truthy
  exactly when the identifier is known and \<open>prev.get("last_price", 0)\<close> finds the key), the
  persisted state root, and the in-memory state of one run.
\<close>

record tracked =
  tracked_title :: string
  tracked_site :: string
  tracked_url :: string
  last_price :: pyfloat
  updated_at :: int

record state =
  st_products :: "string \<rightharpoonup> tracked"
  st_alerts_sent :: "string \<rightharpoonup> int"
  st_last_run :: "int option"

record run =
  known_products :: "string \<rightharpoonup> tracked"
  alerts_sent :: "string \<rightharpoonup> int"
  alerts :: "string list"

text \<open>
  What the run reads from outside: the two credentials, the state file (\<open>None\<close> when it
  does not exist), the page of each URL already parsed (\<open>None\<close> when \<open>requests.get\<close> or
  \<open>raise_for_status\<close> raises \<open>RequestException\<close>), \<open>int(time.time())\<close> at each site and at
  the end, and whether the \<open>n\<close>-th call of \<open>send_telegram_message\<close> returns (\<open>True\<close>) or
  raises.
\<close>

record world =
  TELEGRAM_BOT_TOKEN :: "string option"
  TELEGRAM_CHAT_ID :: "string option"
  state_file :: "state option"
  fetch :: "string \<Rightarrow> document option"
  clock :: "string \<Rightarrow> int"
  end_clock :: int
  send_ok :: "nat \<Rightarrow> string \<Rightarrow> bool"

definition SITES :: "(string \<times> string) list" where
  "SITES =
     [(''mercadolibre'', ''https://www.mercadolibre.com.pe/ofertas''),
      (''falabella'', ''https://www.falabella.com.pe/falabella-pe/category/cat40712/Ofertas''),
      (''hm'', ''https://pe.hm.com/sale/view-all.html''),
      (''shopstar'', ''https://www.shopstar.pe/collections/ofertas'')]"

definition load_state :: "world \<Rightarrow> state" where
  "load_state w =
     (case state_file w of
        None \<Rightarrow> \<lparr>st_products = Map.empty, st_alerts_sent = Map.empty, st_last_run = None\<rparr>
      | Some st \<Rightarrow> st)"

subsection \<open>One observed product\<close>

text \<open>\<open>((old_price - product.price_pen) / old_price) * 100\<close>\<close>

definition drop_percentage :: "pyfloat \<Rightarrow> pyfloat \<Rightarrow> error + pyfloat" where
  "drop_percentage old_price new_price =
     (case py_truediv (fsub old_price new_price) old_price of
        Inl e \<Rightarrow> Inl e
      | Inr q \<Rightarrow> Inr (fmul q (Fin 100)))"

text \<open>
  The drop test of lines 236 to 245: \<open>None\<close> when one of the three \<open>continue\<close> guards
  fires, otherwise the old price and the drop percentage.
\<close>

definition drop_candidate ::
  "pyfloat \<Rightarrow> tracked option \<Rightarrow> pyfloat \<Rightarrow> error + (pyfloat \<times> pyfloat) option"
where
  "drop_candidate threshold prev new_price =
     (case prev of
        None \<Rightarrow> Inr None
      | Some pv \<Rightarrow>
          let old_price = last_price pv
          in if fle old_price (Fin 0) \<or> fge new_price old_price then Inr None
             else
               (case drop_percentage old_price new_price of
                  Inl e \<Rightarrow> Inl e
                | Inr drop_pct \<Rightarrow>
                    if flt drop_pct threshold then Inr None
                    else Inr (Some (old_price, drop_pct))))"

text \<open>The dict written for every observed product (lines 228 to 234).\<close>

definition entry_of :: "string \<Rightarrow> int \<Rightarrow> product \<Rightarrow> tracked" where
  "entry_of s now p =
     \<lparr>tracked_title = title p, tracked_site = s, tracked_url = url p,
      last_price = price_pen p, updated_at = now\<rparr>"

text \<open>The body of the loop over the products of a site (lines 227 to 260).\<close>

definition observe :: "config \<Rightarrow> string \<Rightarrow> int \<Rightarrow> product \<Rightarrow> run \<Rightarrow> error + run" where
  "observe cfg s now p r =
     (let prev = known_products r (product_id p);
          r1 = r\<lparr>known_products := (known_products r)(product_id p \<mapsto> entry_of s now p)\<rparr>
      in case drop_candidate (DROP_THRESHOLD cfg) prev (price_pen p) of
           Inl e \<Rightarrow> Inl e
         | Inr None \<Rightarrow> Inr r1
         | Inr (Some (old_price, drop_pct)) \<Rightarrow>
             let k = alert_key (product_id p) old_price (price_pen p)
             in if k \<in> dom (alerts_sent r1) then Inr r1
                else Inr (r1\<lparr>alerts := alerts r1 @ [alert_text drop_pct s p old_price],
                             alerts_sent := (alerts_sent r1)(k \<mapsto> now)\<rparr>))"

fun observe_all :: "config \<Rightarrow> string \<Rightarrow> int \<Rightarrow> product list \<Rightarrow> run \<Rightarrow> error + run" where
  "observe_all cfg s now [] r = Inr r"
| "observe_all cfg s now (p # ps) r =
     (case observe cfg s now p r of
        Inl e \<Rightarrow> Inl e
      | Inr r' \<Rightarrow> observe_all cfg s now ps r')"

text \<open>The loop over the sites (lines 213 to 260): a site whose fetch fails is skipped.\<close>

fun visit_sites :: "config \<Rightarrow> world \<Rightarrow> (string \<times> string) list \<Rightarrow> run \<Rightarrow> error + run" where
  "visit_sites cfg w [] r = Inr r"
| "visit_sites cfg w ((s, u) # rest) r =
     (case fetch w u of
        None \<Rightarrow> visit_sites cfg w rest r
      | Some soup \<Rightarrow>
          (case observe_all cfg s (clock w s) (extract_products cfg s soup u) r of
             Inl e \<Rightarrow> Inl e
           | Inr r' \<Rightarrow> visit_sites cfg w rest r'))"

subsection \<open>Sending and saving\<close>

text \<open>\<open>alerts[:n]\<close>: a negative \<open>n\<close> counts from the end.\<close>

definition slice_to :: "int \<Rightarrow> 'a list \<Rightarrow> 'a list" where
  "slice_to n xs = (if 0 \<le> n then take (nat n) xs else take (length xs - nat (- n)) xs)"

text \<open>
  The send loop (lines 262 to 264). \<open>send_telegram_message\<close> raises when the request fails
  and nothing catches it, so the loop ends at the first failure: the result is the
  messages handed to \<open>send_telegram_message\<close>, in order, and whether all of them returned.
\<close>

fun send_all :: "(nat \<Rightarrow> string \<Rightarrow> bool) \<Rightarrow> nat \<Rightarrow> string list \<Rightarrow> string list \<times> bool" where
  "send_all ok i [] = ([], True)"
| "send_all ok i (a # as) =
     (if ok i a then (case send_all ok (Suc i) as of (sent, fine) \<Rightarrow> (a # sent, fine))
      else ([a], False))"

text \<open>
  The outcome of a run: the messages handed to \<open>send_telegram_message\<close>, and the state
  written by \<open>save_state\<close>, or the exception that ended the run before \<open>save_state\<close>.
\<close>

record outcome =
  attempted :: "string list"
  saved :: "error + state"

definition is_unset :: "string option \<Rightarrow> bool" where
  "is_unset v = (v = None \<or> v = Some [])"

text \<open>The in-memory state at the start of a run (lines 208 to 211).\<close>

definition run0 :: "world \<Rightarrow> run" where
  "run0 w =
     \<lparr>known_products = st_products (load_state w),
      alerts_sent = st_alerts_sent (load_state w), alerts = []\<rparr>"

definition monitor :: "config \<Rightarrow> world \<Rightarrow> outcome" where
  "monitor cfg w =
     (if is_unset (TELEGRAM_BOT_TOKEN w) \<or> is_unset (TELEGRAM_CHAT_ID w)
      then \<lparr>attempted = [], saved = Inl RuntimeError\<rparr>
      else
        case visit_sites cfg w SITES (run0 w) of
          Inl e \<Rightarrow> \<lparr>attempted = [], saved = Inl e\<rparr>
        | Inr r \<Rightarrow>
            (case send_all (send_ok w) 0 (slice_to (MAX_ALERTS_PER_RUN cfg) (alerts r)) of
               (sent, fine) \<Rightarrow>
                 if fine
                 then \<lparr>attempted = sent,
                       saved = Inr ((load_state w)\<lparr>st_products := known_products r,
                                                    st_alerts_sent := alerts_sent r,
                                                    st_last_run := Some (end_clock w)\<rparr>)\<rparr>
                 else \<lparr>attempted = sent, saved = Inl SendError\<rparr>))"

section \<open>Example inputs\<close>

text \<open>
  Concrete inputs for the closed theorems below: a configuration with the default
  threshold and caps (with \<open>urljoin\<close> on absolute links, which returns the link, and a
  digest that returns its input), a tracked entry at 100.00, a product observed at 40.00,
  and a world with credentials where every fetch fails, whose state file tracks that product
  and holds the ledger entry of the transition from 100.00 to 40.00.
\<close>

definition example_config :: config where
  "example_config =
     \<lparr>urljoin = (\<lambda>base href. href), digest = (\<lambda>x. x), DROP_THRESHOLD = Fin 50,
      MAX_ITEMS_PER_SITE = 60, MAX_ALERTS_PER_RUN = 20\<rparr>"

definition example_entry :: tracked where
  "example_entry =
     \<lparr>tracked_title = ''X'', tracked_site = ''s'', tracked_url = ''u'',
      last_price = Fin 100, updated_at = 0\<rparr>"

definition example_product :: product where
  "example_product =
     \<lparr>site = ''s'', product_id = ''id1'', title = ''X'', price_pen = Fin 40, url = ''u''\<rparr>"

definition offline_world :: world where
  "offline_world =
     \<lparr>TELEGRAM_BOT_TOKEN = Some ''t'', TELEGRAM_CHAT_ID = Some ''c'',
      state_file = Some \<lparr>st_products = [''id1'' \<mapsto> example_entry],
                          st_alerts_sent = [''id1:100.00->40.00'' \<mapsto> 1000],
                          st_last_run = None\<rparr>,
      fetch = (\<lambda>u. None), clock = (\<lambda>s. 1000), end_clock = 1001,
      send_ok = (\<lambda>i m. True)\<rparr>"

text \<open>
  A page with two product cards, each an \<open>article\<close> with its title in an \<open>h2\<close>, its price
  in an element of class \<open>price\<close> and a link; and a world where the first site serves this
  page and every other fetch fails, whose state file tracks both products at 100.00 with an
  empty ledger. With the digest of \<open>example_config\<close> the identifiers are the first 24
  characters of \<open>mercadolibre|nice shoes|https://x/p/1\<close> and
  \<open>mercadolibre|nice bag|https://x/p/2\<close>.
\<close>

definition example_block :: "nat \<Rightarrow> string \<Rightarrow> string \<Rightarrow> string \<Rightarrow> block" where
  "example_block i t p h =
     \<lparr>block_id = i,
      select_one = (\<lambda>selector.
        if selector = ''h2'' then Some \<lparr>node_text = t, node_href = None\<rparr>
        else if selector = ''.price'' then Some \<lparr>node_text = p, node_href = None\<rparr>
        else if selector = ''a[href]'' then Some \<lparr>node_text = [], node_href = Some h\<rparr>
        else None)\<rparr>"

definition example_page :: document where
  "example_page =
     (\<lambda>selector.
        if selector = ''article''
        then [example_block 1 ''Nice Shoes'' ''S/ 40.00'' ''https://x/p/1'',
              example_block 2 ''Nice Bag'' ''S/ 40.00'' ''https://x/p/2'']
        else [])"

definition shoes_id :: string where
  "shoes_id = ''mercadolibre|nice shoes|''"

definition bag_id :: string where
  "bag_id = ''mercadolibre|nice bag|ht''"

definition shoes :: product where
  "shoes =
     \<lparr>site = ''mercadolibre'', product_id = shoes_id, title = ''Nice Shoes'',
      price_pen = Fin 40, url = ''https://x/p/1''\<rparr>"

definition bag :: product where
  "bag =
     \<lparr>site = ''mercadolibre'', product_id = bag_id, title = ''Nice Bag'',
      price_pen = Fin 40, url = ''https://x/p/2''\<rparr>"

definition shop_state :: state where
  "shop_state =
     \<lparr>st_products = [shoes_id \<mapsto> example_entry, bag_id \<mapsto> example_entry],
      st_alerts_sent = Map.empty, st_last_run = None\<rparr>"

definition shop_world :: "state \<Rightarrow> (nat \<Rightarrow> string \<Rightarrow> bool) \<Rightarrow> world" where
  "shop_world st ok =
     \<lparr>TELEGRAM_BOT_TOKEN = Some ''t'', TELEGRAM_CHAT_ID = Some ''c'',
      state_file = Some st,
      fetch = (\<lambda>u. if u = ''https://www.mercadolibre.com.pe/ofertas'' then Some example_page
                    else None),
      clock = (\<lambda>s. 1000), end_clock = 1001, send_ok = ok\<rparr>"

section \<open>Evaluating floats\<close>

lemma ilog2_5: "ilog2 5 = 2"
  by (simp add: ilog2_def pow2_def compute_floorlog)

lemma round_binary64_5: "round_binary64 5 = Fin 5"
  by (simp add: round_binary64_def ilog2_5 pow2_def round_half_even_def)

lemmas parse_price_eval =
  parse_price_def clean_def keep_char_def is_digit_def normalise_def rfind_def
  remove_char_def comma_to_period_def py_float_def digit_val_def

lemma ilog2_99: "ilog2 99 = 6"
  by (simp add: ilog2_def pow2_def compute_floorlog)

lemma round_binary64_99: "round_binary64 99 = Fin 99"
  by (simp add: round_binary64_def ilog2_99 pow2_def round_half_even_def)

section \<open>Separators and rounding\<close>

lemma rfind_from_snoc:
  "rfind_from c (xs @ [x]) i found =
     (if x = c then i + int (length xs) else rfind_from c xs i found)"
  by (induction xs arbitrary: i found) auto

lemma rfind_snoc:
  "rfind (xs @ [x]) c = (if x = c then int (length xs) else rfind xs c)"
  by (simp add: rfind_def rfind_from_snoc)

lemma rfind_Nil: "rfind [] c = - 1"
  by (simp add: rfind_def)

lemma rfind_bounds: "- 1 \<le> rfind s c \<and> rfind s c < int (length s)"
  by (induction s rule: rev_induct) (auto simp: rfind_Nil rfind_snoc)

lemma rfind_absent: "c \<notin> set s \<Longrightarrow> rfind s c = - 1"
  by (induction s rule: rev_induct) (auto simp: rfind_Nil rfind_snoc)

lemma rfind_present: "c \<in> set s \<Longrightarrow> 0 \<le> rfind s c"
  by (induction s rule: rev_induct) (auto simp: rfind_Nil rfind_snoc)

lemma later_separator:
  "CHR '','' \<in> set s \<or> CHR ''.'' \<in> set s \<Longrightarrow>
   (rfind s (CHR '','') > rfind s (CHR ''.'')) = (last (separators s) = CHR '','')"
proof (induction s rule: rev_induct)
  case Nil
  then show ?case by simp
next
  case (snoc x xs)
  show ?case
  proof (cases "x = CHR '','' \<or> x = CHR ''.''")
    case True
    then show ?thesis
      using rfind_bounds [of xs "CHR '',''"] rfind_bounds [of xs "CHR ''.''"]
      by (auto simp: rfind_snoc separators_def)
  next
    case False
    with snoc show ?thesis
      by (auto simp: rfind_snoc separators_def)
  qed
qed

lemma count_list_0: "c \<notin> set s \<Longrightarrow> count_list s c = 0"
  by (induction s) auto

lemma count_list_pos: "c \<in> set s \<Longrightarrow> 0 < count_list s c"
  by (induction s) auto

lemma normalise_spec: "normalise c = spec_normalise c"
proof (cases "CHR '','' \<in> set c \<and> CHR ''.'' \<in> set c")
  case True
  then show ?thesis
    using later_separator [of c] by (simp add: normalise_def spec_normalise_def)
next
  case False
  then show ?thesis
    using count_list_pos [of "CHR '',''" c] count_list_pos [of "CHR ''.''" c]
      count_list_0 [of "CHR '',''" c] count_list_0 [of "CHR ''.''" c]
    by (auto simp: normalise_def spec_normalise_def)
qed

lemma round_half_even_nonneg: "0 \<le> x \<Longrightarrow> 0 \<le> round_half_even x"
  by (auto simp: round_half_even_def Let_def)

lemma pow2_pos: "0 < pow2 k"
  by (simp add: pow2_def)

lemma round_binary64_nonneg:
  assumes "0 \<le> q"
  shows "round_binary64 q = PInf \<or> (\<exists>r. 0 \<le> r \<and> round_binary64 q = Fin r)"
proof (cases "q = 0")
  case True
  then show ?thesis by (simp add: round_binary64_def)
next
  case False
  with assms have pos: "0 < q" by simp
  define ulp where "ulp = pow2 (max (ilog2 \<bar>q\<bar>) (- 1022) - 52)"
  have "0 < ulp" by (simp add: ulp_def pow2_pos)
  with pos have "0 \<le> \<bar>q\<bar> / ulp" by simp
  then have "0 \<le> round_half_even (\<bar>q\<bar> / ulp)" by (rule round_half_even_nonneg)
  with \<open>0 < ulp\<close> have "0 \<le> of_int (round_half_even (\<bar>q\<bar> / ulp)) * ulp" by simp
  with pos False show ?thesis
    by (simp add: round_binary64_def Let_def ulp_def)
qed

lemma py_float_value:
  "py_float s = Some x \<Longrightarrow> \<exists>q. 0 \<le> q \<and> x = round_binary64 q"
proof -
  assume a: "py_float s = Some x"
  have n: "(0::rat) \<le> of_nat n" for n by simp
  have d: "(0::rat) \<le> of_nat n / 10 ^ k" for n k by simp
  from a show ?thesis
    unfolding py_float_def Let_def
    by (auto split: list.splits if_splits intro: n d)
qed

lemma py_float_nonneg:
  "py_float s = Some x \<Longrightarrow> x = PInf \<or> (\<exists>r. 0 \<le> r \<and> x = Fin r)"
  using py_float_value [of s x] round_binary64_nonneg by blast

lemma pow2_powi: "pow2 k = 2 powi k"
proof (cases "0 \<le> k")
  case True
  then show ?thesis by (simp add: pow2_def power_int_def)
next
  case False
  then show ?thesis by (simp add: pow2_def power_int_def inverse_eq_divide power_one_over)
qed

lemma pow2_diff: "pow2 (int m - int n) = 2 ^ m / 2 ^ n"
  by (simp add: pow2_powi power_int_diff)

lemma pow2_add: "pow2 (i + j) = pow2 i * pow2 j"
  by (simp add: pow2_powi power_int_add)

lemma pow2_mono: "i \<le> j \<Longrightarrow> pow2 i \<le> pow2 j"
  by (simp add: pow2_powi power_int_increasing)

lemma pow2_nat: "0 \<le> k \<Longrightarrow> pow2 k = of_int (2 ^ nat k)"
  by (simp add: pow2_def)

lemma ilog2_lower:
  assumes "0 < q"
  shows "pow2 (ilog2 q) \<le> q"
proof -
  obtain a b where ab: "quotient_of q = (a, b)" by (cases "quotient_of q")
  have b: "0 < b" using ab by (rule quotient_of_denom_pos)
  have q: "q = of_int a / of_int b" using ab by (rule quotient_of_div)
  have a: "0 < a"
  proof (rule ccontr)
    assume "\<not> 0 < a"
    then have "of_int a \<le> (0::rat)" by simp
    with b have "q \<le> 0" unfolding q by (simp add: divide_nonpos_pos)
    with assms show False by simp
  qed
  define la where "la = floorlog 2 (nat a)"
  define lb where "lb = floorlog 2 (nat b)"
  have 1: "2 ^ (la - 1) \<le> nat a" and 2: "nat b < 2 ^ lb"
    using floorlog_bounds [of "nat a" 2] floorlog_bounds [of "nat b" 2] a b
    by (simp_all add: la_def lb_def)
  have la: "1 \<le> la" using a by (simp add: la_def floorlog_def)
  have A: "(2::rat) ^ (la - 1) \<le> of_int a"
  proof -
    have "(of_nat (2 ^ (la - 1)) :: rat) \<le> of_nat (nat a)" using 1 by (rule of_nat_mono)
    with a show ?thesis by simp
  qed
  have B: "(of_int b :: rat) \<le> 2 ^ lb"
  proof -
    have "(of_nat (nat b) :: rat) \<le> of_nat (2 ^ lb)" using 2 by (intro of_nat_mono) simp
    with b show ?thesis by simp
  qed
  have "pow2 (int la - int lb - 1) = 2 ^ (la - 1) / 2 ^ lb"
    using pow2_diff [of "la - 1" lb] la by (simp add: of_nat_diff algebra_simps)
  also have "\<dots> \<le> of_int a / of_int b"
  proof -
    have "(2::rat) ^ (la - 1) * of_int b \<le> of_int a * 2 ^ lb"
      using A B a b by (intro mult_mono) simp_all
    with b show ?thesis by (simp add: field_simps)
  qed
  finally have low: "pow2 (int la - int lb - 1) \<le> q" by (simp add: q)
  show ?thesis
    using low ab by (simp add: ilog2_def la_def lb_def Let_def)
qed

lemma round_half_even_ge: "of_int n \<le> x \<Longrightarrow> n \<le> round_half_even x"
proof -
  assume "of_int n \<le> x"
  then have "n \<le> \<lfloor>x\<rfloor>" by (simp add: le_floor_iff)
  then show ?thesis by (auto simp: round_half_even_def Let_def)
qed

lemma round_binary64_overflow:
  assumes "pow2 1024 \<le> q"
  shows "round_binary64 q = PInf"
proof -
  have q: "0 < q" using assms pow2_pos [of 1024] by simp
  define e where "e = max (ilog2 q) (- 1022)"
  define ulp where "ulp = pow2 (e - 52)"
  define x where "x = q / ulp"
  have ulp: "0 < ulp" by (simp add: ulp_def pow2_pos)
  have "\<exists>n. of_int n \<le> x \<and> pow2 1024 \<le> of_int n * ulp"
  proof (cases "e \<le> 1076")
    case True
    have "pow2 1024 = pow2 (1076 - e) * ulp"
      unfolding ulp_def pow2_add [symmetric] by simp
    also have "pow2 (1076 - e) = of_int (2 ^ nat (1076 - e))"
      using True by (intro pow2_nat) simp
    finally have eq: "pow2 1024 = of_int (2 ^ nat (1076 - e)) * ulp" .
    with assms ulp have "of_int (2 ^ nat (1076 - e)) \<le> x"
      by (simp add: x_def pos_le_divide_eq)
    with eq show ?thesis by (intro exI [of _ "2 ^ nat (1076 - e)"]) simp
  next
    case False
    then have e: "e = ilog2 q" by (simp add: e_def)
    have "pow2 e \<le> q" unfolding e using q by (rule ilog2_lower)
    moreover have pe: "pow2 e = of_int (2 ^ 52) * ulp"
      unfolding ulp_def using pow2_add [of 52 "e - 52"] by (simp add: pow2_def)
    ultimately have "of_int (2 ^ 52) \<le> x"
      using ulp by (simp add: x_def pos_le_divide_eq)
    moreover have "pow2 1024 \<le> pow2 e" using False by (intro pow2_mono) simp
    ultimately show ?thesis using pe by (intro exI [of _ "2 ^ 52"]) simp
  qed
  then obtain n where n: "of_int n \<le> x" "pow2 1024 \<le> of_int n * ulp" by blast
  have "n \<le> round_half_even x" using n(1) by (rule round_half_even_ge)
  then have "(of_int n :: rat) \<le> of_int (round_half_even x)" by simp
  with ulp have "of_int n * ulp \<le> of_int (round_half_even x) * ulp"
    by (simp add: mult_right_mono)
  with n(2) have "pow2 1024 \<le> of_int (round_half_even x) * ulp" by simp
  with q show ?thesis
    by (simp add: round_binary64_def Let_def e_def [symmetric] ulp_def [symmetric] x_def [symmetric])
qed

lemma digits_val_zeros: "digits_val acc (replicate n (CHR ''0'')) = acc * 10 ^ n"
  by (induction n arbitrary: acc) (auto simp: digit_val_def)

lemma ten_309: "pow2 1024 \<le> 10 ^ 309"
  by (simp add: pow2_def)

section \<open>Properties of \<open>parse_price\<close>\<close>

lemma clean_idem: "clean (clean s) = clean s"
  by (simp add: clean_def)

text \<open>
  C3. \<open>parse_price\<close> is \<open>float\<close> applied to the cleaned text after the separator rules of
  the specification: the later of comma and period is the decimal point and the other kind
  is removed, a single comma without a period is a decimal point, several periods without
  a comma are removed, anything else is parsed as it is. The Python literal \<open>1234.56\<close> is
  the double \<open>round_binary64 (123456 / 100)\<close>, and \<open>1.234\<close> is \<open>round_binary64 (1234 / 1000)\<close>.
\<close>

theorem parse_price_separator_rules:
  "parse_price s = (if clean s = [] then None else py_float (spec_normalise (clean s)))
   \<and> parse_price ''S/ 1,234.56'' = Some (round_binary64 (123456 / 100))
   \<and> parse_price ''1.234,56'' = Some (round_binary64 (123456 / 100))
   \<and> parse_price ''99'' = Some (Fin 99)
   \<and> parse_price [] = None
   \<and> parse_price ''abc'' = None
   \<and> parse_price ''1.234'' = Some (round_binary64 (1234 / 1000))"
proof (intro conjI)
  show "parse_price s = (if clean s = [] then None else py_float (spec_normalise (clean s)))"
    by (simp add: parse_price_def Let_def normalise_spec)
  show "parse_price ''S/ 1,234.56'' = Some (round_binary64 (123456 / 100))"
    by (simp add: parse_price_eval)
  show "parse_price ''1.234,56'' = Some (round_binary64 (123456 / 100))"
    by (simp add: parse_price_eval)
  have "parse_price ''99'' = Some (round_binary64 99)"
    by (simp add: parse_price_eval)
  then show "parse_price ''99'' = Some (Fin 99)"
    by (simp add: round_binary64_99)
  show "parse_price [] = None"
    by (simp add: parse_price_eval)
  show "parse_price ''abc'' = None"
    by (simp add: parse_price_eval)
  show "parse_price ''1.234'' = Some (round_binary64 (1234 / 1000))"
    by (simp add: parse_price_eval)
qed

text \<open>
  The separator rules at \<open>"1.234,56"\<close>: nothing is removed by cleaning, the comma is the
  later separator, so the period goes and the comma becomes the decimal point.
\<close>

theorem parse_price_separator_rules_witness:
  "parse_price ''1.234,56'' = py_float ''1234.56''
   \<and> clean ''1.234,56'' = ''1.234,56''
   \<and> spec_normalise ''1.234,56'' = ''1234.56''"
  using parse_price_separator_rules [of "''1.234,56''"]
  by (simp add: clean_def keep_char_def is_digit_def spec_normalise_def separators_def
      remove_char_def comma_to_period_def)

section \<open>Evaluating the drop percentage\<close>

lemma ilog2_upper:
  assumes "0 < q"
  shows "q < pow2 (ilog2 q + 1)"
proof -
  obtain a b where ab: "quotient_of q = (a, b)" by (cases "quotient_of q")
  have b: "0 < b" using ab by (rule quotient_of_denom_pos)
  have q: "q = of_int a / of_int b" using ab by (rule quotient_of_div)
  have a: "0 < a"
  proof (rule ccontr)
    assume "\<not> 0 < a"
    then have "of_int a \<le> (0::rat)" by simp
    with b have "q \<le> 0" unfolding q by (simp add: divide_nonpos_pos)
    with assms show False by simp
  qed
  define la where "la = floorlog 2 (nat a)"
  define lb where "lb = floorlog 2 (nat b)"
  have 1: "nat a < 2 ^ la" and 2: "2 ^ (lb - 1) \<le> nat b"
    using floorlog_bounds [of "nat a" 2] floorlog_bounds [of "nat b" 2] a b
    by (simp_all add: la_def lb_def)
  have lb: "1 \<le> lb" using b by (simp add: lb_def floorlog_def)
  have A: "(of_int a :: rat) < 2 ^ la"
  proof -
    have "(of_nat (nat a) :: rat) < of_nat (2 ^ la)" using 1 by (simp only: of_nat_less_iff)
    with a show ?thesis by simp
  qed
  have B: "(2::rat) ^ (lb - 1) \<le> of_int b"
  proof -
    have "(of_nat (2 ^ (lb - 1)) :: rat) \<le> of_nat (nat b)" using 2 by (rule of_nat_mono)
    with b show ?thesis by simp
  qed
  have "of_int a / of_int b < (2::rat) ^ la / 2 ^ (lb - 1)"
  proof -
    have "(of_int a :: rat) * 2 ^ (lb - 1) < 2 ^ la * of_int b"
      using A B a b by (intro mult_less_le_imp_less) simp_all
    with b show ?thesis by (simp add: field_simps)
  qed
  also have "\<dots> = pow2 (int la - int lb + 1)"
    using pow2_diff [of la "lb - 1"] lb by (simp add: of_nat_diff algebra_simps)
  finally have up: "q < pow2 (int la - int lb + 1)" by (simp add: q)
  show ?thesis
    using up ab by (auto simp: ilog2_def la_def lb_def Let_def not_le)
qed

lemma pow2_strict_mono: "i < j \<Longrightarrow> pow2 i < pow2 j"
  by (simp add: pow2_powi power_int_strict_increasing)

lemma ilog2_eq:
  assumes "pow2 e \<le> q" and "q < pow2 (e + 1)"
  shows "ilog2 q = e"
proof -
  have q: "0 < q" using assms(1) pow2_pos [of e] by simp
  have l: "pow2 (ilog2 q) \<le> q" and u: "q < pow2 (ilog2 q + 1)"
    using q by (rule ilog2_lower, rule ilog2_upper)
  show ?thesis
  proof (rule ccontr)
    assume "ilog2 q \<noteq> e"
    then consider "ilog2 q + 1 \<le> e" | "e + 1 \<le> ilog2 q" by linarith
    then show False
    proof cases
      case 1
      then have "pow2 (ilog2 q + 1) \<le> pow2 e" by (rule pow2_mono)
      with u assms(1) show False by simp
    next
      case 2
      then have "pow2 (e + 1) \<le> pow2 (ilog2 q)" by (rule pow2_mono)
      with l assms(2) show False by simp
    qed
  qed
qed

lemma floor_numeral_div: "\<lfloor>(numeral a / numeral b :: rat)\<rfloor> = numeral a div numeral b"
  using floor_divide_of_int_eq [of "numeral a" "numeral b", where ?'a = rat] by simp

lemmas round_eval = round_binary64_def pow2_def round_half_even_def Let_def floor_numeral_div

lemma ilog2_60: "ilog2 60 = 5"
  by (rule ilog2_eq) (simp_all add: pow2_def)

lemma r60: "round_binary64 60 = Fin 60"
  by (simp add: round_binary64_def ilog2_60 pow2_def round_half_even_def)

lemma ilog2_35: "ilog2 (3 / 5) = - 1"
  by (rule ilog2_eq) (simp_all add: pow2_def)

lemma r35: "round_binary64 (3 / 5) = Fin (5404319552844595 / 9007199254740992)"
  by (simp add: round_eval ilog2_35)

lemma ilog2_x: "ilog2 (5404319552844595 / 9007199254740992 * 100) = 5"
  by (rule ilog2_eq) (simp_all add: pow2_def)

lemma rx: "round_binary64 (5404319552844595 / 9007199254740992 * 100) = Fin 60"
  using ilog2_x by (simp add: round_eval)

lemma dp: "drop_percentage (Fin 100) (Fin 40) = Inr (Fin 60)"
  using rx by (simp add: drop_percentage_def r60 r35)

section \<open>Where rounding overflows\<close>

lemma round_half_even_le: "x \<le> of_int n \<Longrightarrow> round_half_even x \<le> n"
proof -
  assume a: "x \<le> of_int n"
  then have f: "\<lfloor>x\<rfloor> \<le> n" by (simp add: floor_le_iff)
  show ?thesis
  proof (cases "\<lfloor>x\<rfloor> = n")
    case True
    then have "of_int n \<le> x" using of_int_floor_le [of x] by simp
    with a have "x = of_int n" by simp
    then show ?thesis by (simp add: round_half_even_def)
  next
    case False
    with f have "\<lfloor>x\<rfloor> + 1 \<le> n" by simp
    then show ?thesis by (auto simp: round_half_even_def Let_def)
  qed
qed

lemma round_half_even_below_half: "x < of_int n - 1 / 2 \<Longrightarrow> round_half_even x < n"
proof -
  assume a: "x < of_int n - 1 / 2"
  then have "x < of_int n" by simp
  then have f: "\<lfloor>x\<rfloor> < n" by (simp add: floor_less_iff)
  show ?thesis
  proof (cases "\<lfloor>x\<rfloor> = n - 1")
    case True
    then have "x - of_int \<lfloor>x\<rfloor> < 1 / 2" using a by simp
    with True show ?thesis by (simp add: round_half_even_def Let_def)
  next
    case False
    with f have "\<lfloor>x\<rfloor> + 1 < n" by simp
    then show ?thesis by (auto simp: round_half_even_def Let_def)
  qed
qed

lemma round_half_even_from_half:
  assumes "even n" and "of_int n - 1 / 2 \<le> x"
  shows "n \<le> round_half_even x"
proof (cases "of_int n \<le> x")
  case True
  then show ?thesis by (rule round_half_even_ge)
next
  case False
  then have "x < of_int n" by simp
  then have "\<lfloor>x\<rfloor> < n" by (simp add: floor_less_iff)
  moreover have "of_int (n - 1) \<le> x" using assms(2) by simp
  then have "n - 1 \<le> \<lfloor>x\<rfloor>" by (simp only: le_floor_iff)
  ultimately have f: "\<lfloor>x\<rfloor> = n - 1" by simp
  then have o: "odd \<lfloor>x\<rfloor>" using assms(1) by simp
  have d: "1 / 2 \<le> x - of_int \<lfloor>x\<rfloor>" using assms(2) f by simp
  from f o d show ?thesis by (auto simp: round_half_even_def Let_def)
qed

lemma ilog2_below: "0 < q \<Longrightarrow> q < pow2 k \<Longrightarrow> ilog2 q < k"
proof (rule ccontr)
  assume q: "0 < q" and u: "q < pow2 k" and "\<not> ilog2 q < k"
  then have "pow2 k \<le> pow2 (ilog2 q)" by (intro pow2_mono) simp
  with ilog2_lower [OF q] u show False by simp
qed

lemma round_binary64_finite:
  assumes "0 \<le> q" and "q < 2 ^ 1024 - 2 ^ 970"
  shows "\<exists>r. 0 \<le> r \<and> r < 2 ^ 1024 \<and> round_binary64 q = Fin r"
proof (cases "q = 0")
  case True
  then show ?thesis by (simp add: round_binary64_def)
next
  case False
  with assms(1) have q: "0 < q" by simp
  define e where "e = max (ilog2 q) (- 1022)"
  define ulp where "ulp = pow2 (e - 52)"
  define x where "x = q / ulp"
  define r where "r = of_int (round_half_even x) * ulp"
  have ulp: "0 < ulp" by (simp add: ulp_def pow2_pos)
  have p1024: "pow2 1024 = 2 ^ 1024" by (simp add: pow2_def)
  have "q < pow2 1024" using assms(2) by (simp add: pow2_def)
  with q have "ilog2 q < 1024" by (rule ilog2_below)
  then have e: "e \<le> 1023" by (simp add: e_def)
  have "0 \<le> x" using q ulp by (simp add: x_def)
  then have "0 \<le> round_half_even x" by (rule round_half_even_nonneg)
  with ulp have r0: "0 \<le> r" by (simp add: r_def)
  have r1: "r < pow2 1024"
  proof (cases "e = 1023")
    case True
    then have u: "ulp = 2 ^ 971" by (simp add: ulp_def pow2_def)
    have "x < of_int (2 ^ 53) - 1 / 2"
      using assms(2) by (simp add: x_def u)
    then have "round_half_even x < 2 ^ 53" by (rule round_half_even_below_half)
    then have "round_half_even x \<le> 2 ^ 53 - 1" by simp
    then have "(of_int (round_half_even x) :: rat) \<le> of_int (2 ^ 53 - 1)" by (simp only: of_int_le_iff)
    then have "r \<le> of_int (2 ^ 53 - 1) * ulp"
      unfolding r_def using ulp by (simp only: mult_right_mono less_imp_le)
    also have "\<dots> < pow2 1024" by (simp add: u pow2_def)
    finally show ?thesis .
  next
    case False
    with e have e': "e + 1 \<le> 1023" by simp
    have "q < pow2 (ilog2 q + 1)" using q by (rule ilog2_upper)
    also have "\<dots> \<le> pow2 (e + 1)" by (intro pow2_mono) (simp add: e_def)
    finally have "q < pow2 (e + 1)" .
    moreover have pe: "pow2 (e + 1) = of_int (2 ^ 53) * ulp"
    proof -
      have "e + 1 = 53 + (e - 52)" by simp
      then have "pow2 (e + 1) = pow2 (53 + (e - 52))" by (rule arg_cong)
      also have "\<dots> = pow2 53 * pow2 (e - 52)" by (rule pow2_add)
      also have "pow2 53 = of_int (2 ^ 53)" by (simp add: pow2_def)
      finally show ?thesis by (simp only: ulp_def)
    qed
    ultimately have "x \<le> of_int (2 ^ 53)"
      using ulp by (simp add: x_def pos_divide_le_eq)
    then have "round_half_even x \<le> 2 ^ 53" by (rule round_half_even_le)
    then have "(of_int (round_half_even x) :: rat) \<le> of_int (2 ^ 53)" by (simp only: of_int_le_iff)
    then have "r \<le> of_int (2 ^ 53) * ulp"
      unfolding r_def using ulp by (simp only: mult_right_mono less_imp_le)
    also have "\<dots> = pow2 (e + 1)" by (simp only: pe)
    also have "\<dots> \<le> pow2 1023" using e' by (rule pow2_mono)
    also have "\<dots> < pow2 1024" by (intro pow2_strict_mono) simp
    finally show ?thesis .
  qed
  have "round_binary64 q = Fin r"
    using q r1
    by (simp add: round_binary64_def Let_def e_def [symmetric] ulp_def [symmetric]
        x_def [symmetric] r_def [symmetric])
  with r0 r1 p1024 show ?thesis by auto
qed

lemma round_binary64_inf:
  assumes "2 ^ 1024 - 2 ^ 970 \<le> q"
  shows "round_binary64 q = PInf"
proof (cases "pow2 1024 \<le> q")
  case True
  then show ?thesis by (rule round_binary64_overflow)
next
  case False
  then have u: "q < pow2 (1023 + 1)" by simp
  have "pow2 1023 \<le> 2 ^ 1024 - 2 ^ 970" by (simp add: pow2_def)
  with assms have l: "pow2 1023 \<le> q" by simp
  then have q: "0 < q" using pow2_pos [of 1023] by simp
  from l u have e: "ilog2 q = 1023" by (rule ilog2_eq)
  define x where "x = q / 2 ^ 971"
  have "of_int (2 ^ 53) - 1 / 2 \<le> x" using assms by (simp add: x_def)
  then have "2 ^ 53 \<le> round_half_even x" by (intro round_half_even_from_half) simp_all
  then have "(of_int (2 ^ 53) :: rat) \<le> of_int (round_half_even x)" by (simp only: of_int_le_iff)
  then have "of_int (2 ^ 53) * 2 ^ 971 \<le> (of_int (round_half_even x) :: rat) * 2 ^ 971"
    by (simp only: mult_right_mono zero_le_power zero_le_numeral)
  then have "pow2 1024 \<le> of_int (round_half_even x) * 2 ^ 971" by (simp add: pow2_def)
  moreover have "pow2 (1023 - 52) = 2 ^ 971" by (simp add: pow2_def)
  ultimately show ?thesis
    using q unfolding x_def by (simp add: round_binary64_def Let_def e)
qed

section \<open>\<open>parse_price\<close> on arbitrary text\<close>

subsection \<open>Code points below 256\<close>

lemma is_decimal_small: "n < 256 \<Longrightarrow> is_decimal n = (48 \<le> n \<and> n < 58)"
  by (simp add: is_decimal_def decimal_zeros_def)

lemma decimal_of_small:
  "n < 256 \<Longrightarrow> decimal_of n = (if 48 \<le> n \<and> n < 58 then Some (n - 48) else None)"
  by (simp add: decimal_of_def decimal_zeros_def)

lemma of_char_eqD: "of_char c = (n :: nat) \<Longrightarrow> c = char_of n"
  by auto

lemma code_comma: "(44 :: nat) = of_char (CHR '','')" by simp

lemma code_period: "(46 :: nat) = of_char (CHR ''.'')" by simp

lemma of_char_eq_comma: "(of_char c = (44 :: nat)) = (c = CHR '','')"
  by (simp only: code_comma of_char_eq_iff)

lemma of_char_eq_period: "(of_char c = (46 :: nat)) = (c = CHR ''.'')"
  by (simp only: code_period of_char_eq_iff)

lemma is_digit_code: "is_digit c = (48 \<le> (of_char c :: nat) \<and> (of_char c :: nat) < 58)"
proof
  assume "is_digit c"
  then show "48 \<le> (of_char c :: nat) \<and> (of_char c :: nat) < 58"
    by (auto simp: is_digit_def)
next
  assume "48 \<le> (of_char c :: nat) \<and> (of_char c :: nat) < 58"
  then have "(of_char c :: nat) \<in> {48, 49, 50, 51, 52, 53, 54, 55, 56, 57}"
    by simp presburger
  then show "is_digit c"
    by (auto simp: is_digit_def char_of_def bit_0 dest!: of_char_eqD)
qed

lemma is_decimal_of_char: "is_decimal (of_char c) = is_digit c"
  by (simp add: is_decimal_small is_digit_code)

lemma keep_u_of_char: "keep_u (of_char c) = keep_char c"
  by (simp add: keep_u_def keep_char_def is_decimal_of_char of_char_eq_comma of_char_eq_period)

lemma clean_u_codes: "clean_u (codes s) = codes (clean s)"
  by (simp add: clean_u_def clean_def codes_def filter_map comp_def keep_u_of_char)

lemma rfind_from_map:
  "inj f \<Longrightarrow> rfind_from (f c) (map f s) i found = rfind_from c s i found"
  by (induction s arbitrary: i found) (simp_all add: inj_eq)

lemma rfind_map: "inj f \<Longrightarrow> rfind (map f s) (f c) = rfind s c"
  by (simp add: rfind_def rfind_from_map)

lemma count_list_map: "inj f \<Longrightarrow> count_list (map f s) (f c) = count_list s c"
  by (induction s) (simp_all add: inj_eq)

lemma remove_char_map: "inj f \<Longrightarrow> remove_char (f c) (map f s) = map f (remove_char c s)"
  by (simp add: remove_char_def filter_map comp_def inj_eq)

lemma inj_of_char_nat: "inj (of_char :: char \<Rightarrow> nat)"
  by (rule injI) simp

lemma comma_to_period_u_codes: "comma_to_period_u (codes s) = codes (comma_to_period s)"
  by (simp add: comma_to_period_u_def comma_to_period_def codes_def of_char_eq_comma)

lemma normalise_u_codes: "normalise_u (codes c) = codes (normalise c)"
proof -
  note i = inj_of_char_nat
  have m: "(44 \<in> set (codes c)) = (CHR '','' \<in> set c)" "(46 \<in> set (codes c)) = (CHR ''.'' \<in> set c)"
    by (auto simp: codes_def of_char_eq_comma of_char_eq_period)
  have r: "rfind (codes c) 44 = rfind c (CHR '','')" "rfind (codes c) 46 = rfind c (CHR ''.'')"
    unfolding codes_def code_comma code_period by (simp_all only: rfind_map [OF i])
  have n: "count_list (codes c) 44 = count_list c (CHR '','')"
    "count_list (codes c) 46 = count_list c (CHR ''.'')"
    unfolding codes_def code_comma code_period by (simp_all only: count_list_map [OF i])
  have d: "remove_char 44 (codes c) = codes (remove_char (CHR '','') c)"
    "remove_char 46 (codes c) = codes (remove_char (CHR ''.'') c)"
    unfolding codes_def code_comma code_period by (simp_all only: remove_char_map [OF i])
  show ?thesis
    by (simp add: normalise_u_def normalise_def m r n d comma_to_period_u_codes)
qed

lemma keep_char_ascii: "keep_char c \<Longrightarrow> (of_char c :: nat) < 128"
  by (auto simp: keep_char_def is_digit_def)

lemma ascii_of_of_char: "(of_char c :: nat) < 128 \<Longrightarrow> ascii_of (of_char c) = c"
  by (simp add: ascii_of_def decimal_of_small)

lemma normalise_keep:
  "\<forall>x\<in>set c. keep_char x \<Longrightarrow> \<forall>x\<in>set (normalise c). keep_char x"
  by (auto simp: normalise_def remove_char_def comma_to_period_def keep_char_def)

lemma ascii_of_codes: "\<forall>x\<in>set c. keep_char x \<Longrightarrow> map ascii_of (codes c) = c"
  by (induction c) (simp_all add: codes_def ascii_of_of_char keep_char_ascii)

lemma parse_price_u_codes: "parse_price_u (codes s) = parse_price s"
proof -
  have "\<forall>x\<in>set (clean s). keep_char x" by (simp add: clean_def)
  then have "\<forall>x\<in>set (normalise (clean s)). keep_char x" by (rule normalise_keep)
  then have "map ascii_of (codes (normalise (clean s))) = normalise (clean s)"
    by (rule ascii_of_codes)
  moreover have "(codes (clean s) = []) = (clean s = [])" by (simp add: codes_def)
  ultimately show ?thesis
    by (simp add: parse_price_u_def parse_price_def Let_def clean_u_codes normalise_u_codes)
qed

subsection \<open>The exact value and its rounding\<close>

lemma py_float_decimal_value: "py_float s = map_option round_binary64 (decimal_value s)"
proof (cases "dropWhile is_digit s")
  case Nil
  show ?thesis unfolding py_float_def decimal_value_def Let_def Nil by simp
next
  case (Cons c fp)
  show ?thesis unfolding py_float_def decimal_value_def Let_def Cons by simp
qed

lemma decimal_value_nonneg: "decimal_value s = Some q \<Longrightarrow> 0 \<le> q"
  by (auto simp: decimal_value_def Let_def split: list.splits if_splits)

lemma decimal_value_power:
  "decimal_value (CHR ''1'' # replicate n (CHR ''0'')) = Some (10 ^ n)"
proof -
  let ?z = "replicate n (CHR ''0'')"
  have t: "takeWhile is_digit (CHR ''1'' # ?z) = CHR ''1'' # ?z"
    by (simp add: is_digit_def)
  have d: "dropWhile is_digit (CHR ''1'' # ?z) = []"
    by (simp add: is_digit_def)
  have v: "digits_val 0 (CHR ''1'' # ?z) = 10 ^ n"
    by (simp add: digits_val_zeros digit_val_def)
  show ?thesis
    by (simp only: decimal_value_def Let_def t d v list.case) simp
qed

lemma ilog2_123: "ilog2 123 = 6"
  by (rule ilog2_eq) (simp_all add: pow2_def)

lemma round_binary64_123: "round_binary64 123 = Fin 123"
  by (simp add: round_eval ilog2_123)

lemma clean_u_idem: "clean_u (clean_u t) = clean_u t"
  by (simp add: clean_u_def)

lemma parse_price_u_arabic: "parse_price_u [0x661, 0x662, 0x663] = Some (Fin 123)"
proof -
  have c: "clean_u [0x661, 0x662, 0x663] = [0x661, 0x662, 0x663]"
    by (simp add: clean_u_def keep_u_def is_decimal_def decimal_zeros_def)
  have n: "normalise_u [0x661, 0x662, 0x663] = [0x661, 0x662, 0x663]"
    by (simp add: normalise_u_def)
  have a: "ascii_of 0x661 = CHR ''1''" "ascii_of 0x662 = CHR ''2''" "ascii_of 0x663 = CHR ''3''"
    by (simp_all add: ascii_of_def decimal_of_def decimal_zeros_def char_of_def bit_0)
  have "py_float ''123'' = Some (round_binary64 123)"
    by (simp add: py_float_def is_digit_def digit_val_def)
  then show ?thesis
    by (simp add: parse_price_u_def Let_def c n a round_binary64_123)
qed

subsection \<open>Characters that do not matter\<close>

text \<open>
  C10. The result of \<open>parse_price\<close> depends only on the decimal digits, commas and periods
  of its input, a decimal digit being what \<open>\d\<close> matches (any Unicode decimal digit):
  removing every other code point (a currency symbol, a letter, a space, a minus sign)
  leaves the result unchanged. On text below code point 256 the digits are \<open>0\<close> to \<open>9\<close>, and
  \<open>"-5.00"\<close> is not rejected: it gives the positive amount \<open>5.0\<close>. The three ARABIC-INDIC
  digits one, two, three give \<open>123.0\<close>.
\<close>

theorem parse_price_ignores_other_chars:
  "parse_price_u (filter (\<lambda>c. is_decimal c \<or> c = 44 \<or> c = 46) t) = parse_price_u t
   \<and> parse_price_u (codes s) = parse_price s
   \<and> parse_price (filter (\<lambda>c. c \<in> set ''0123456789,.'') s) = parse_price s
   \<and> parse_price ''-5.00'' = Some (Fin 5)
   \<and> parse_price ''5.00'' = Some (Fin 5)
   \<and> parse_price_u [0x661, 0x662, 0x663] = Some (Fin 123)"
proof (intro conjI)
  have "filter (\<lambda>c. is_decimal c \<or> c = 44 \<or> c = 46) t = clean_u t"
    by (simp add: clean_u_def keep_u_def [abs_def])
  then show "parse_price_u (filter (\<lambda>c. is_decimal c \<or> c = 44 \<or> c = 46) t) = parse_price_u t"
    by (simp add: parse_price_u_def clean_u_idem)
  show "parse_price_u (codes s) = parse_price s"
    by (rule parse_price_u_codes)
  have "filter (\<lambda>c. c \<in> set ''0123456789,.'') s = clean s"
    unfolding clean_def by (rule filter_cong) (auto simp: keep_char_def is_digit_def)
  then show "parse_price (filter (\<lambda>c. c \<in> set ''0123456789,.'') s) = parse_price s"
    by (simp add: parse_price_def clean_idem)
  have "parse_price ''-5.00'' = Some (round_binary64 5)"
    by (simp add: parse_price_eval)
  then show "parse_price ''-5.00'' = Some (Fin 5)"
    by (simp add: round_binary64_5)
  have "parse_price ''5.00'' = Some (round_binary64 5)"
    by (simp add: parse_price_eval)
  then show "parse_price ''5.00'' = Some (Fin 5)"
    by (simp add: round_binary64_5)
  show "parse_price_u [0x661, 0x662, 0x663] = Some (Fin 123)"
    by (rule parse_price_u_arabic)
qed

text \<open>
  The text \<open>S/ -5.00\<close>: its digits and its period are \<open>5.00\<close>, and both give \<open>5.0\<close>.
\<close>

theorem parse_price_ignores_other_chars_witness:
  "filter (\<lambda>c. is_decimal c \<or> c = 44 \<or> c = 46) (codes ''S/ -5.00'') = codes ''5.00''
   \<and> parse_price_u (codes ''5.00'') = parse_price_u (codes ''S/ -5.00'')
   \<and> parse_price_u (codes ''S/ -5.00'') = Some (Fin 5)"
proof -
  have f: "filter (\<lambda>c. is_decimal c \<or> c = 44 \<or> c = 46) (codes ''S/ -5.00'') = codes ''5.00''"
    by (simp add: codes_def is_decimal_small)
  have "parse_price ''S/ -5.00'' = Some (round_binary64 5)"
    by (simp add: parse_price_eval)
  then have v: "parse_price ''S/ -5.00'' = Some (Fin 5)"
    by (simp add: round_binary64_5)
  from parse_price_ignores_other_chars [of "codes ''S/ -5.00''" "''S/ -5.00''"] f v
  show ?thesis by simp
qed

subsection \<open>Which numbers are returned\<close>

text \<open>
  C4, as the code has it. \<open>parse_price\<close> rejects, or returns the double nearest to the exact
  value \<open>q \<ge> 0\<close> of the cleaned and normalised text. That double is a finite number \<open>\<ge> 0\<close>
  when \<open>q < 2^1024 - 2^970\<close> and positive infinity when \<open>q \<ge> 2^1024 - 2^970\<close>: \<open>float\<close>
  returns \<open>inf\<close> then, and \<open>parse_price\<close> has no finiteness check. So the result is never
  negative and never NaN, and it is infinite exactly when the value overflows.
\<close>

theorem parse_price_nonneg_or_inf:
  "parse_price_u t =
     (if clean_u t = [] then None
      else map_option round_binary64 (decimal_value (map ascii_of (normalise_u (clean_u t)))))
   \<and> parse_price s =
     (if clean s = [] then None else map_option round_binary64 (decimal_value (normalise (clean s))))
   \<and> (decimal_value x = Some q \<longrightarrow>
        0 \<le> q
        \<and> (if q < 2 ^ 1024 - 2 ^ 970
           then \<exists>r. 0 \<le> r \<and> r < 2 ^ 1024 \<and> round_binary64 q = Fin r
           else round_binary64 q = PInf))
   \<and> (parse_price_u t = None \<or> parse_price_u t = Some PInf
        \<or> (\<exists>r. 0 \<le> r \<and> r < 2 ^ 1024 \<and> parse_price_u t = Some (Fin r)))"
proof (intro conjI impI)
  show 1: "parse_price_u t =
     (if clean_u t = [] then None
      else map_option round_binary64 (decimal_value (map ascii_of (normalise_u (clean_u t)))))"
    by (simp add: parse_price_u_def Let_def py_float_decimal_value)
  show "parse_price s =
     (if clean s = [] then None else map_option round_binary64 (decimal_value (normalise (clean s))))"
    by (simp add: parse_price_def Let_def py_float_decimal_value)
  have r: "if q < 2 ^ 1024 - 2 ^ 970
           then \<exists>r. 0 \<le> r \<and> r < 2 ^ 1024 \<and> round_binary64 q = Fin r
           else round_binary64 q = PInf" if "0 \<le> q" for q
    using that round_binary64_finite [of q] round_binary64_inf [of q] by auto
  {
    assume "decimal_value x = Some q"
    then show "0 \<le> q" by (rule decimal_value_nonneg)
    then show "if q < 2 ^ 1024 - 2 ^ 970
           then \<exists>r. 0 \<le> r \<and> r < 2 ^ 1024 \<and> round_binary64 q = Fin r
           else round_binary64 q = PInf" by (rule r)
  }
  show "parse_price_u t = None \<or> parse_price_u t = Some PInf
        \<or> (\<exists>r. 0 \<le> r \<and> r < 2 ^ 1024 \<and> parse_price_u t = Some (Fin r))"
  proof (cases "parse_price_u t")
    case None
    then show ?thesis by simp
  next
    case (Some y)
    with 1 have "map_option round_binary64
        (decimal_value (map ascii_of (normalise_u (clean_u t)))) = Some y"
      by (simp split: if_splits)
    then obtain q where q: "decimal_value (map ascii_of (normalise_u (clean_u t))) = Some q"
      and y: "y = round_binary64 q"
      by auto
    from q have "0 \<le> q" by (rule decimal_value_nonneg)
    from r [OF this] y Some show ?thesis by (auto split: if_splits)
  qed
qed

text \<open>
  A one followed by 308 zeros is below the bound and gives a finite double; followed by 309
  zeros it is above and gives infinity.
\<close>

theorem parse_price_nonneg_or_inf_witness:
  "decimal_value (CHR ''1'' # replicate 308 (CHR ''0'')) = Some (10 ^ 308)
   \<and> (10 :: rat) ^ 308 < 2 ^ 1024 - 2 ^ 970
   \<and> (\<exists>r. 0 \<le> r \<and> r < 2 ^ 1024 \<and> round_binary64 (10 ^ 308) = Fin r)
   \<and> decimal_value (CHR ''1'' # replicate 309 (CHR ''0'')) = Some (10 ^ 309)
   \<and> \<not> (10 :: rat) ^ 309 < 2 ^ 1024 - 2 ^ 970
   \<and> round_binary64 (10 ^ 309) = PInf"
proof -
  have a: "(10 :: rat) ^ 308 < 2 ^ 1024 - 2 ^ 970" by simp
  have b: "\<not> (10 :: rat) ^ 309 < 2 ^ 1024 - 2 ^ 970" by simp
  note v = decimal_value_power [of 308] decimal_value_power [of 309]
  from parse_price_nonneg_or_inf [of _ _ "CHR ''1'' # replicate 308 (CHR ''0'')" "10 ^ 308"]
    parse_price_nonneg_or_inf [of _ _ "CHR ''1'' # replicate 309 (CHR ''0'')" "10 ^ 309"]
    a b v
  show ?thesis by (simp only: if_True if_False simp_thms)
qed

text \<open>
  C4 as stated fails: a one followed by 309 zeros is a price text of 310 digits whose value
  \<open>10^309\<close> is beyond the largest double, and \<open>parse_price\<close> returns infinity for it.
\<close>

theorem parse_price_infinite_counterexample:
  "parse_price (CHR ''1'' # replicate 309 (CHR ''0'')) = Some PInf"
proof -
  let ?z = "replicate 309 (CHR ''0'')"
  have k: "filter keep_char ?z = ?z" by (simp add: keep_char_def is_digit_def)
  have c: "clean (CHR ''1'' # ?z) = CHR ''1'' # ?z"
    by (simp add: clean_def k) (simp add: keep_char_def is_digit_def)
  have n: "normalise (CHR ''1'' # ?z) = CHR ''1'' # ?z"
    by (simp add: normalise_def count_list_0)
  have t: "takeWhile is_digit (CHR ''1'' # ?z) = CHR ''1'' # ?z"
    by (simp add: is_digit_def)
  have d: "dropWhile is_digit (CHR ''1'' # ?z) = []"
    by (simp add: is_digit_def)
  have v: "digits_val 0 (CHR ''1'' # ?z) = 10 ^ 309"
    by (simp add: digits_val_zeros digit_val_def)
  have r: "round_binary64 (of_nat (10 ^ 309)) = PInf"
    using ten_309 by (intro round_binary64_overflow) simp
  show ?thesis
    by (simp only: parse_price_def Let_def c n py_float_def t d v list.case r) simp
qed

section \<open>The drop test\<close>

lemma fle_zero_Fin: "fle (Fin a) (Fin 0) = (a \<le> 0)" by simp

lemma drop_percentage_total:
  "\<not> fle old (Fin 0) \<Longrightarrow> \<exists>d. drop_percentage old new = Inr d"
  by (cases old; cases new) (auto simp: drop_percentage_def split: sum.splits pyfloat.splits)

lemma drop_candidate_total: "\<exists>c. drop_candidate thr prev new = Inr c"
proof (cases prev)
  case None
  then show ?thesis by (simp add: drop_candidate_def)
next
  case (Some pv)
  show ?thesis
  proof (cases "fle (last_price pv) (Fin 0) \<or> fge new (last_price pv)")
    case True
    with Some show ?thesis by (auto simp: drop_candidate_def)
  next
    case False
    then obtain d where "drop_percentage (last_price pv) new = Inr d"
      using drop_percentage_total by blast
    with Some False show ?thesis by (auto simp: drop_candidate_def Let_def)
  qed
qed

lemma round_binary64_not_NaN: "round_binary64 q \<noteq> NaN"
  by (simp add: round_binary64_def Let_def)

lemma fmul_100_not_NaN: "x \<noteq> NaN \<Longrightarrow> fmul x (Fin 100) \<noteq> NaN"
  by (cases x) (simp_all add: round_binary64_not_NaN)

lemma fsub_not_NaN: "new \<noteq> NaN \<Longrightarrow> fsub (Fin old) new \<noteq> NaN"
  by (cases new) (simp_all add: round_binary64_not_NaN)

lemma py_truediv_not_NaN:
  "x \<noteq> NaN \<Longrightarrow> old \<noteq> 0 \<Longrightarrow> \<exists>q. py_truediv x (Fin old) = Inr q \<and> q \<noteq> NaN"
  by (cases x) (simp_all add: round_binary64_not_NaN)

lemma drop_percentage_not_NaN:
  assumes "0 < old" "new \<noteq> NaN" "drop_percentage (Fin old) new = Inr d"
  shows "d \<noteq> NaN"
proof -
  have "fsub (Fin old) new \<noteq> NaN" using assms(2) by (rule fsub_not_NaN)
  then obtain q where q: "py_truediv (fsub (Fin old) new) (Fin old) = Inr q" "q \<noteq> NaN"
    using py_truediv_not_NaN [of "fsub (Fin old) new" old] assms(1) by auto
  then have "d = fmul q (Fin 100)" using assms(3) by (simp add: drop_percentage_def)
  with q(2) show ?thesis by (simp add: fmul_100_not_NaN)
qed

lemma not_flt_iff_fle: "a \<noteq> NaN \<Longrightarrow> b \<noteq> NaN \<Longrightarrow> (\<not> flt a b) = fle b a"
  by (cases a; cases b) auto

lemma not_fle_iff_flt: "a \<noteq> NaN \<Longrightarrow> b \<noteq> NaN \<Longrightarrow> (\<not> fle a b) = flt b a"
  by (cases a; cases b) auto

lemma drop_candidate_finite:
  assumes old: "last_price pv = Fin old" and new: "new \<noteq> NaN" and thr: "thr \<noteq> NaN"
  shows "(\<exists>d. drop_candidate thr (Some pv) new = Inr (Some (Fin old, d))) =
         (0 < old \<and> flt new (Fin old) \<and> (\<exists>d. drop_percentage (Fin old) new = Inr d \<and> fle thr d))"
proof (cases "0 < old \<and> flt new (Fin old)")
  case False
  then have "fle (Fin old) (Fin 0) \<or> fge new (Fin old)"
    using new by (cases new) (auto simp: fge_def)
  then have "drop_candidate thr (Some pv) new = Inr None"
    by (auto simp: drop_candidate_def old)
  with False show ?thesis by auto
next
  case True
  then have g: "\<not> (fle (Fin old) (Fin 0) \<or> fge new (Fin old))"
    using new by (cases new) (auto simp: fge_def)
  obtain d where d: "drop_percentage (Fin old) new = Inr d"
    using drop_percentage_total [of "Fin old" new] True by auto
  have "d \<noteq> NaN" using True new d drop_percentage_not_NaN [of old new d] by simp
  then have "(\<not> flt d thr) = fle thr d" using thr by (rule not_flt_iff_fle)
  with g d True show ?thesis
    by (auto simp: drop_candidate_def old Let_def)
qed

lemma ilog2_40: "ilog2 40 = 5"
  by (rule ilog2_eq) (simp_all add: pow2_def)

lemma round_binary64_40: "round_binary64 40 = Fin 40"
  by (simp add: round_eval ilog2_40)

lemma ilog2_25: "ilog2 (2 / 5) = - 2"
  by (rule ilog2_eq) (simp_all add: pow2_def)

lemma round_binary64_25: "round_binary64 (2 / 5) = Fin (3602879701896397 / 9007199254740992)"
  by (simp add: round_eval ilog2_25)

lemma ilog2_y: "ilog2 (3602879701896397 / 9007199254740992 * 100) = 5"
  by (rule ilog2_eq) (simp_all add: pow2_def)

lemma round_binary64_y: "round_binary64 (3602879701896397 / 9007199254740992 * 100) = Fin 40"
  using ilog2_y by (simp add: round_eval)

lemma drop_percentage_100_60: "drop_percentage (Fin 100) (Fin 60) = Inr (Fin 40)"
  using round_binary64_y by (simp add: drop_percentage_def round_binary64_40 round_binary64_25)















section \<open>One observation\<close>

lemma observe_cases:
  "observe cfg s now p r =
     (case drop_candidate (DROP_THRESHOLD cfg) (known_products r (product_id p)) (price_pen p) of
        Inl e \<Rightarrow> Inl e
      | Inr None \<Rightarrow> Inr (r\<lparr>known_products := (known_products r)(product_id p \<mapsto> entry_of s now p)\<rparr>)
      | Inr (Some (old_price, drop_pct)) \<Rightarrow>
          if alert_key (product_id p) old_price (price_pen p) \<in> dom (alerts_sent r)
          then Inr (r\<lparr>known_products := (known_products r)(product_id p \<mapsto> entry_of s now p)\<rparr>)
          else Inr (r\<lparr>known_products := (known_products r)(product_id p \<mapsto> entry_of s now p),
                       alerts := alerts r @ [alert_text drop_pct s p old_price],
                       alerts_sent := (alerts_sent r)
                         (alert_key (product_id p) old_price (price_pen p) \<mapsto> now)\<rparr>))"
  by (simp add: observe_def Let_def split: sum.splits option.splits prod.splits)

lemma observe_total: "\<exists>r'. observe cfg s now p r = Inr r'"
proof -
  obtain c where "drop_candidate (DROP_THRESHOLD cfg) (known_products r (product_id p)) (price_pen p) = Inr c"
    using drop_candidate_total by blast
  then show ?thesis
    by (cases c) (auto simp: observe_cases)
qed

lemma observe_known:
  assumes "observe cfg s now p r = Inr r'"
  shows "known_products r' = (known_products r)(product_id p \<mapsto> entry_of s now p)"
  using assms by (auto simp: observe_cases split: sum.splits option.splits prod.splits if_splits)

lemma observe_ledger_kept:
  assumes "observe cfg s now p r = Inr r'" and "alerts_sent r k = Some t"
  shows "alerts_sent r' k = Some t"
  using assms by (auto simp: observe_cases split: sum.splits option.splits prod.splits if_splits)

lemma observe_suppressed:
  assumes "drop_candidate (DROP_THRESHOLD cfg) (known_products r (product_id p)) (price_pen p)
             = Inr (Some (old, d))"
    and "alert_key (product_id p) old (price_pen p) \<in> dom (alerts_sent r)"
  shows "\<exists>r'. observe cfg s now p r = Inr r' \<and> alerts r' = alerts r \<and> alerts_sent r' = alerts_sent r"
  using assms by (simp add: observe_cases)

lemma observe_accepted:
  assumes "drop_candidate (DROP_THRESHOLD cfg) (known_products r (product_id p)) (price_pen p)
             = Inr (Some (old, d))"
    and "alert_key (product_id p) old (price_pen p) \<notin> dom (alerts_sent r)"
  shows "\<exists>r'. observe cfg s now p r = Inr r' \<and> alerts r' = alerts r @ [alert_text d s p old]
           \<and> alerts_sent r' = (alerts_sent r)(alert_key (product_id p) old (price_pen p) \<mapsto> now)"
  using assms by (simp add: observe_cases)

lemma observe_no_candidate:
  assumes "drop_candidate (DROP_THRESHOLD cfg) (known_products r (product_id p)) (price_pen p) = Inr None"
  shows "\<exists>r'. observe cfg s now p r = Inr r' \<and> alerts r' = alerts r \<and> alerts_sent r' = alerts_sent r"
  using assms by (simp add: observe_cases)

section \<open>A whole run\<close>

lemma observe_all_total: "\<exists>r'. observe_all cfg s now ps r = Inr r'"
proof (induction ps arbitrary: r)
  case Nil
  then show ?case by simp
next
  case (Cons p ps)
  obtain r1 where "observe cfg s now p r = Inr r1" using observe_total by blast
  with Cons [of r1] show ?case by simp
qed

lemma observe_all_ledger_kept:
  "observe_all cfg s now ps r = Inr r' \<Longrightarrow> alerts_sent r k = Some t \<Longrightarrow> alerts_sent r' k = Some t"
proof (induction ps arbitrary: r)
  case Nil
  then show ?case by simp
next
  case (Cons p ps)
  then obtain r1 where 1: "observe cfg s now p r = Inr r1" and 2: "observe_all cfg s now ps r1 = Inr r'"
    by (auto split: sum.splits)
  from 1 Cons.prems(2) have "alerts_sent r1 k = Some t" by (rule observe_ledger_kept)
  with Cons.IH 2 show ?case by blast
qed

lemma observe_all_known_dom:
  "observe_all cfg s now ps r = Inr r' \<Longrightarrow> dom (known_products r) \<subseteq> dom (known_products r')"
proof (induction ps arbitrary: r)
  case Nil
  then show ?case by simp
next
  case (Cons p ps)
  then obtain r1 where 1: "observe cfg s now p r = Inr r1" and 2: "observe_all cfg s now ps r1 = Inr r'"
    by (auto split: sum.splits)
  from 1 have "dom (known_products r) \<subseteq> dom (known_products r1)"
    by (auto simp: observe_known)
  with Cons.IH [OF 2] show ?case by blast
qed

lemma visit_sites_total: "\<exists>r'. visit_sites cfg w sites r = Inr r'"
proof (induction sites arbitrary: r)
  case Nil
  then show ?case by simp
next
  case (Cons su sites)
  obtain s u where su: "su = (s, u)" by (cases su)
  show ?case
  proof (cases "fetch w u")
    case None
    with su Cons show ?thesis by simp
  next
    case (Some soup)
    obtain r1 where "observe_all cfg s (clock w s) (extract_products cfg s soup u) r = Inr r1"
      using observe_all_total by blast
    with su Some Cons [of r1] show ?thesis by simp
  qed
qed

lemma visit_sites_ledger_kept:
  "visit_sites cfg w sites r = Inr r' \<Longrightarrow> alerts_sent r k = Some t \<Longrightarrow> alerts_sent r' k = Some t"
proof (induction sites arbitrary: r)
  case Nil
  then show ?case by simp
next
  case (Cons su sites)
  obtain s u where su: "su = (s, u)" by (cases su)
  show ?case
  proof (cases "fetch w u")
    case None
    with su Cons show ?thesis by simp
  next
    case (Some soup)
    with su Cons.prems(1) obtain r1 where
      1: "observe_all cfg s (clock w s) (extract_products cfg s soup u) r = Inr r1" and
      2: "visit_sites cfg w sites r1 = Inr r'"
      by (auto split: sum.splits)
    from 1 Cons.prems(2) have "alerts_sent r1 k = Some t" by (rule observe_all_ledger_kept)
    with Cons.IH 2 show ?thesis by blast
  qed
qed

lemma visit_sites_known_dom:
  "visit_sites cfg w sites r = Inr r' \<Longrightarrow> dom (known_products r) \<subseteq> dom (known_products r')"
proof (induction sites arbitrary: r)
  case Nil
  then show ?case by simp
next
  case (Cons su sites)
  obtain s u where su: "su = (s, u)" by (cases su)
  show ?case
  proof (cases "fetch w u")
    case None
    with su Cons show ?thesis by simp
  next
    case (Some soup)
    with su Cons.prems(1) obtain r1 where
      1: "observe_all cfg s (clock w s) (extract_products cfg s soup u) r = Inr r1" and
      2: "visit_sites cfg w sites r1 = Inr r'"
      by (auto split: sum.splits)
    from 1 have "dom (known_products r) \<subseteq> dom (known_products r1)" by (rule observe_all_known_dom)
    with Cons.IH [OF 2] show ?thesis by blast
  qed
qed

lemma send_all_fine: "send_all ok n as = (sent, True) \<Longrightarrow> sent = as"
  by (induction as arbitrary: n sent) (auto split: if_splits prod.splits)

lemma send_all_all_ok:
  "(\<forall>i<length as. ok (n + i) (as ! i)) \<Longrightarrow> send_all ok n as = (as, True)"
proof (induction as arbitrary: n)
  case Nil
  then show ?case by simp
next
  case (Cons a as)
  have "ok n a" using Cons.prems by (auto dest: spec [of _ 0])
  moreover have "\<forall>i<length as. ok (Suc n + i) (as ! i)"
  proof (intro allI impI)
    fix i assume "i < length as"
    then have "ok (n + Suc i) ((a # as) ! Suc i)" using Cons.prems by (auto simp del: nth_Cons_Suc)
    then show "ok (Suc n + i) (as ! i)" by simp
  qed
  then have "send_all ok (Suc n) as = (as, True)" by (rule Cons.IH)
  ultimately show ?case by simp
qed

lemma send_all_first_failure:
  "i < length as \<Longrightarrow> \<not> ok (n + i) (as ! i) \<Longrightarrow> (\<forall>j<i. ok (n + j) (as ! j)) \<Longrightarrow>
   send_all ok n as = (take (Suc i) as, False)"
proof (induction as arbitrary: n i)
  case Nil
  then show ?case by simp
next
  case (Cons a as)
  show ?case
  proof (cases i)
    case 0
    with Cons.prems show ?thesis by simp
  next
    case (Suc k)
    have a: "ok n a" using Cons.prems(3) Suc by (auto dest: spec [of _ 0])
    have "k < length as" using Cons.prems(1) Suc by simp
    moreover have "\<not> ok (Suc n + k) (as ! k)" using Cons.prems(2) Suc by simp
    moreover have "\<forall>j<k. ok (Suc n + j) (as ! j)"
    proof (intro allI impI)
      fix j assume "j < k"
      then have "ok (n + Suc j) ((a # as) ! Suc j)" using Cons.prems(3) Suc by (auto simp del: nth_Cons_Suc)
      then show "ok (Suc n + j) (as ! j)" by simp
    qed
    ultimately have "send_all ok (Suc n) as = (take (Suc k) as, False)" by (rule Cons.IH)
    with a Suc show ?thesis by simp
  qed
qed

lemma monitor_saved:
  assumes "saved (monitor cfg w) = Inr st'"
  shows "\<exists>r. visit_sites cfg w SITES (run0 w) = Inr r
           \<and> st_products st' = known_products r \<and> st_alerts_sent st' = alerts_sent r
           \<and> st_last_run st' = Some (end_clock w)
           \<and> attempted (monitor cfg w) = slice_to (MAX_ALERTS_PER_RUN cfg) (alerts r)"
proof -
  obtain r where r: "visit_sites cfg w SITES (run0 w) = Inr r"
    using visit_sites_total by blast
  obtain sent fine where sf: "send_all (send_ok w) 0 (slice_to (MAX_ALERTS_PER_RUN cfg) (alerts r)) = (sent, fine)"
    by (cases "send_all (send_ok w) 0 (slice_to (MAX_ALERTS_PER_RUN cfg) (alerts r))")
  have c: "\<not> (is_unset (TELEGRAM_BOT_TOKEN w) \<or> is_unset (TELEGRAM_CHAT_ID w))"
    using assms by (auto simp: monitor_def)
  have fine: fine using assms c r sf by (auto simp: monitor_def split: if_splits)
  with sf have "sent = slice_to (MAX_ALERTS_PER_RUN cfg) (alerts r)" by (auto dest: send_all_fine)
  with assms c r sf fine show ?thesis by (auto simp: monitor_def)
qed

lemma monitor_ledger_kept:
  assumes "saved (monitor cfg w) = Inr st'" and "st_alerts_sent (load_state w) k = Some t"
  shows "st_alerts_sent st' k = Some t"
proof -
  from monitor_saved [OF assms(1)] obtain r where
    r: "visit_sites cfg w SITES (run0 w) = Inr r" and l: "st_alerts_sent st' = alerts_sent r" by blast
  have "alerts_sent (run0 w) k = Some t" using assms(2) by (simp add: run0_def)
  with r have "alerts_sent r k = Some t" by (rule visit_sites_ledger_kept)
  with l show ?thesis by simp
qed

lemma monitor_known_dom:
  assumes "saved (monitor cfg w) = Inr st'"
  shows "dom (st_products (load_state w)) \<subseteq> dom (st_products st')"
proof -
  from monitor_saved [OF assms(1)] obtain r where
    r: "visit_sites cfg w SITES (run0 w) = Inr r" and l: "st_products st' = known_products r" by blast
  from r have "dom (known_products (run0 w)) \<subseteq> dom (known_products r)" by (rule visit_sites_known_dom)
  with l show ?thesis by (simp add: run0_def)
qed

end
